theory Spec2Isabelle
  imports Complex_Main "HOL-Library.Word"
begin

section \<open>Geometry utilities of \<^verbatim>\<open>deface/main.py\<close>\<close>

text \<open>
  Coordinates in the program are Python and numpy floating-point numbers. They are
  modelled as real numbers: every comparison and arithmetic step below is the exact
  counterpart of the floating-point operation of the source, without rounding.

  A box is a 4-tuple. The source uses two layouts for it: corner format
  \<open>(x1, y1, x2, y2)\<close> and origin-size format \<open>(x, y, w, h)\<close>.
\<close>

type_synonym box = "real \<times> real \<times> real \<times> real"

datatype py_error =
    ZeroDivisionError
  | IndexError
  | ValueError string
  | FileNotFoundError string
  | NotADirectoryError string
  | WriterError string

text \<open>Python's \<^verbatim>\<open>a / b\<close>: it raises for a zero divisor.\<close>

definition py_truediv :: "real \<Rightarrow> real \<Rightarrow> py_error + real" where
  "py_truediv a b = (if b = 0 then Inl ZeroDivisionError else Inr (a / b))"

text \<open>
  \<^verbatim>\<open>calculate_containment_ratio(det_box, tracking_box)\<close>: \<open>det_box\<close> is read as
  \<open>(x, y, w, h)\<close>, \<open>tracking_box\<close> as \<open>(x1, y1, x2, y2)\<close>.
\<close>

definition calculate_containment_ratio :: "box \<Rightarrow> box \<Rightarrow> py_error + real" where
  "calculate_containment_ratio det_box tracking_box =
     (case det_box of (b0, b1, b2, b3) \<Rightarrow>
      case tracking_box of (track_x1, track_y1, track_x2, track_y2) \<Rightarrow>
        let det_x1 = b0; det_y1 = b1;
            det_x2 = det_x1 + b2;
            det_y2 = det_y1 + b3;
            x1 = max det_x1 track_x1;
            y1 = max det_y1 track_y1;
            x2 = min det_x2 track_x2;
            y2 = min det_y2 track_y2;
            intersection_area = max 0 (x2 - x1) * max 0 (y2 - y1);
            det_area = (det_x2 - det_x1) * (det_y2 - det_y1)
        in if det_area > 0 then py_truediv intersection_area det_area else Inr 0)"

text \<open>
  \<^verbatim>\<open>boxes_intersect(box1, box2)\<close>: \<open>box1\<close> is read as \<open>(x, y, w, h)\<close> (its third and
  fourth components are added to the first and second), \<open>box2\<close> as
  \<open>(x1, y1, x2, y2)\<close>. Both arguments are 4-tuples here, so the source's test
  \<^verbatim>\<open>len(box1) == 4\<close> is always true.
\<close>

definition boxes_intersect :: "box \<Rightarrow> box \<Rightarrow> bool" where
  "boxes_intersect box1 box2 =
     (case box1 of (b0, b1, b2, b3) \<Rightarrow>
      case box2 of (x1_2, y1_2, x2_2, y2_2) \<Rightarrow>
        let x1_1 = b0; y1_1 = b1;
            x2_1 = x1_1 + b2;
            y2_1 = y1_1 + b3
        in \<not> (x2_1 < x1_2 \<or> x1_1 > x2_2 \<or> y2_1 < y1_2 \<or> y1_1 > y2_2))"

text \<open>
  A row of the person detector's result table \<^verbatim>\<open>boxes.data\<close>:
  \<open>(x1, y1, x2, y2, confidence, class)\<close>, the box in corner format.
\<close>

type_synonym person_row = "real \<times> real \<times> real \<times> real \<times> real \<times> real"

text \<open>
  The person boxes collected in the multi-face branch of \<^verbatim>\<open>video_detect\<close>:
  the first four components of every row of class 0 with confidence at least 0.3.
\<close>

definition person_boxes :: "person_row list \<Rightarrow> box list" where
  "person_boxes rows =
     map (\<lambda>(x1, y1, x2, y2, conf, cls). (x1, y1, x2, y2))
       (filter (\<lambda>(x1, y1, x2, y2, conf, cls). cls = 0 \<and> conf \<ge> 0.3) rows)"

text \<open>
  \<^verbatim>\<open>intersecting_persons = sum(1 for person_box in person_boxes
     if boxes_intersect(person_box, tracked_bbox))\<close>
\<close>

definition intersecting_persons :: "person_row list \<Rightarrow> box \<Rightarrow> nat" where
  "intersecting_persons rows tracked_bbox =
     length (filter (\<lambda>person_box. boxes_intersect person_box tracked_bbox) (person_boxes rows))"

text \<open>
  Two rectangles in corner format share at least one point. This is the plain geometric
  notion, used to state what an intersection test should decide.
\<close>

definition share_point :: "box \<Rightarrow> box \<Rightarrow> bool" where
  "share_point a b =
     (case a of (ax1, ay1, ax2, ay2) \<Rightarrow>
      case b of (bx1, by1, bx2, by2) \<Rightarrow>
        \<exists>x y. ax1 \<le> x \<and> x \<le> ax2 \<and> ay1 \<le> y \<and> y \<le> ay2 \<and>
              bx1 \<le> x \<and> x \<le> bx2 \<and> by1 \<le> y \<and> y \<le> by2)"

text \<open>
  The intersecting-person count as the specification words it: the number of person boxes
  (class 0, confidence at least 0.3, corner format) whose rectangle shares a point with the
  tracked box. It follows the specification, not the code, and serves to compare the two.
\<close>

definition overlapping_persons :: "person_row list \<Rightarrow> box \<Rightarrow> nat" where
  "overlapping_persons rows tracked_bbox =
     length (filter (\<lambda>person_box. share_point person_box tracked_bbox) (person_boxes rows))"

section \<open>The per-frame tracking step of \<^verbatim>\<open>video_detect\<close>\<close>

text \<open>
  A face detection is a row \<open>(x1, y1, x2, y2, score)\<close> of the face detector's output.
\<close>

type_synonym det = "real \<times> real \<times> real \<times> real \<times> real"

text \<open>
  The conversion written out at every call of \<^verbatim>\<open>calculate_containment_ratio\<close> in
  \<^verbatim>\<open>video_detect\<close>: \<^verbatim>\<open>(det[0], det[1], det[2]-det[0], det[3]-det[1])\<close>.
\<close>

definition det_xywh :: "det \<Rightarrow> box" where
  "det_xywh det = (case det of (d0, d1, d2, d3, d4) \<Rightarrow> (d0, d1, d2 - d0, d3 - d1))"

text \<open>
  The number \<^verbatim>\<open>calculate_containment_ratio\<close> hands to its caller. The function never
  raises (lemma \<open>containment_is_result\<close>), so the error branch below is never taken.
\<close>

definition containment :: "det \<Rightarrow> box \<Rightarrow> real" where
  "containment det tracked_bbox =
     (case calculate_containment_ratio (det_xywh det) tracked_bbox of
        Inr ratio \<Rightarrow> ratio
      | Inl e \<Rightarrow> 0)"

definition CONTAINMENT_THRESHOLD :: real where
  "CONTAINMENT_THRESHOLD = 0.5"

text \<open>
  The cross-frame variables of \<^verbatim>\<open>video_detect\<close>. The tracker handle is opaque (type
  \<open>'t\<close>). Every assignment of a handle to \<^verbatim>\<open>face_tracker\<close> in the source is the tuple
  assignment \<^verbatim>\<open>face_tracker, prev_bbox = init_face_tracker(...)\<close>, and \<^verbatim>\<open>prev_bbox\<close>
  is read only while \<^verbatim>\<open>face_tracker\<close> is not \<^verbatim>\<open>None\<close>; the field \<open>face_tracker\<close>
  therefore holds the handle together with the current \<^verbatim>\<open>prev_bbox\<close>, and \<open>None\<close>
  is the source's \<^verbatim>\<open>face_tracker = None\<close>.
\<close>

record 't track_state =
  face_tracker :: "('t \<times> box) option"
  frames_without_faces :: int
  target_person_found :: bool
  match_score :: "real option"

definition initial_state :: "'t track_state" where
  "initial_state =
     \<lparr>face_tracker = None, frames_without_faces = 0, target_person_found = False,
      match_score = None\<rparr>"

datatype status = SEARCHING | TRACKING

definition status_of :: "'t track_state \<Rightarrow> status" where
  "status_of s = (if face_tracker s \<noteq> None then TRACKING else SEARCHING)"

text \<open>
  One frame as the loop sees it: the pixel buffer and what each collaborator returns on
  this frame. The detectors, the re-identification search and the tracker live outside
  \<^verbatim>\<open>main.py\<close> (modules \<^verbatim>\<open>centerface\<close>, \<^verbatim>\<open>recognition\<close>, \<^verbatim>\<open>tracking\<close> and the
  person detector), so their results are inputs:
  \<^item> \<open>face_dets\<close>: \<^verbatim>\<open>centerface(current_frame, threshold)\<close>;
  \<^item> \<open>person_results\<close>: the rows of \<^verbatim>\<open>person_detector(current_frame)[0].boxes.data\<close>;
  \<^item> \<open>find_person\<close>: \<^verbatim>\<open>find_person_in_frame(...)\<close>, \<open>None\<close> when it returns no
    \<^verbatim>\<open>person_bbox\<close>, else the box and the score;
  \<^item> \<open>init_face_tracker\<close>: the new handle and the box it reports for a seed box;
  \<^item> \<open>update_face_tracker\<close>: the tracked box, or \<open>None\<close> when the tracker fails;
  \<^item> \<open>recover_tracking\<close>: the recovered box for \<^verbatim>\<open>(prev_bbox, dets)\<close>, or \<open>None\<close>;
  \<^item> \<open>quit_key\<close>: whether the preview window reports Q or Escape after this frame.
\<close>

record ('t, 'f) frame_in =
  pixels :: 'f
  face_dets :: "det list"
  person_results :: "person_row list"
  find_person :: "(box \<times> real) option"
  init_face_tracker :: "box \<Rightarrow> 't \<times> box"
  update_face_tracker :: "'t \<Rightarrow> box \<Rightarrow> box option"
  recover_tracking :: "box \<Rightarrow> det list \<Rightarrow> box option"
  quit_key :: bool

text \<open>
  The arguments of \<^verbatim>\<open>video_detect\<close> the loop reads. The two pixel operations are
  parameters: \<^verbatim>\<open>anonymize_frame\<close> with its style arguments fixed, and
  \<^verbatim>\<open>add_debugging_overlay\<close>.
\<close>

record 'f params =
  disable_tracker_reset :: bool
  max_frames_without_faces :: int
  debugging :: bool
  enable_preview :: bool
  opath :: "string option"
  anonymize_frame :: "det list \<Rightarrow> 'f \<Rightarrow> 'f"
  add_debugging_overlay :: "det list \<Rightarrow> box \<Rightarrow> 'f \<Rightarrow> 'f"

text \<open>
  What one iteration leaves behind: the state, the detections passed to
  \<^verbatim>\<open>anonymize_frame\<close>, the frame handed to the writer, and one observation of an
  intermediate value: \<open>incremented\<close> is the value of \<^verbatim>\<open>frames_without_faces\<close> right
  after the statement \<^verbatim>\<open>frames_without_faces += 1\<close>, when the iteration executes it.
\<close>

record ('t, 'f) frame_result =
  state_out :: "'t track_state"
  anonymization_set :: "det list"
  out_frame :: 'f
  incremented :: "int option"

text \<open>Step 2 of the loop body: target person detection and tracker initialisation.\<close>

definition acquire :: "'t track_state \<Rightarrow> ('t, 'f) frame_in \<Rightarrow> 't track_state" where
  "acquire s fr =
     (if (\<not> target_person_found s \<or> face_tracker s = None) \<and> length (face_dets fr) > 0 then
        (case find_person fr of
           Some (person_bbox, score) \<Rightarrow>
             s\<lparr>face_tracker := Some (init_face_tracker fr person_bbox),
               target_person_found := True,
               match_score := Some score\<rparr>
         | None \<Rightarrow> s)
      else s)"

text \<open>
  Step 3, first half: the tracker update and the recovery after a tracker failure. The
  second component is \<^verbatim>\<open>tracked_bbox\<close> as it stands at the test
  \<^verbatim>\<open>if tracked_bbox is not None\<close>; it is \<open>None\<close> as well when there is no tracker.
\<close>

definition update_tracking ::
  "'t track_state \<Rightarrow> ('t, 'f) frame_in \<Rightarrow> 't track_state \<times> box option" where
  "update_tracking s fr =
     (case face_tracker s of
        None \<Rightarrow> (s, None)
      | Some (handle, prev_bbox) \<Rightarrow>
          (case update_face_tracker fr handle prev_bbox of
             Some tracked_bbox \<Rightarrow> (s, Some tracked_bbox)
           | None \<Rightarrow>
               (case recover_tracking fr prev_bbox (face_dets fr) of
                  Some recovered_bbox \<Rightarrow>
                    (let (handle', prev_bbox') = init_face_tracker fr recovered_bbox
                     in (s\<lparr>face_tracker := Some (handle', prev_bbox')\<rparr>, Some prev_bbox'))
                | None \<Rightarrow>
                    (s\<lparr>face_tracker := None, target_person_found := False\<rparr>, None))))"

definition tracking_phase ::
  "'t track_state \<Rightarrow> ('t, 'f) frame_in \<Rightarrow> 't track_state \<times> box option" where
  "tracking_phase s fr = update_tracking (acquire s fr) fr"

definition dets_in_tracked :: "det list \<Rightarrow> box \<Rightarrow> det list" where
  "dets_in_tracked dets tracked_bbox =
     filter (\<lambda>det. containment det tracked_bbox > CONTAINMENT_THRESHOLD) dets"

definition dets_outside :: "det list \<Rightarrow> box \<Rightarrow> det list" where
  "dets_outside dets tracked_bbox =
     filter (\<lambda>det. containment det tracked_bbox < CONTAINMENT_THRESHOLD) dets"

text \<open>
  The first detection whose containment ratio against the recovered box exceeds 0.5
  (the \<^verbatim>\<open>for ... break\<close> loop of the recovery branch).
\<close>

definition recovered_det :: "det list \<Rightarrow> box \<Rightarrow> det option" where
  "recovered_det dets recovered_bbox = find (\<lambda>det. containment det recovered_bbox > 0.5) dets"

text \<open>
  The end of the no-face branch: the counter is incremented, then compared with the
  maximum. The pair holds the new state and the value right after the increment.
\<close>

definition count_and_reset :: "'f params \<Rightarrow> 't track_state \<Rightarrow> 't track_state \<times> int" where
  "count_and_reset p s =
     (let n = frames_without_faces s + 1;
          s1 = s\<lparr>frames_without_faces := n\<rparr>
      in if \<not> disable_tracker_reset p \<and> n \<ge> max_frames_without_faces p then
           (s1\<lparr>face_tracker := None, target_person_found := False, frames_without_faces := 0\<rparr>, n)
         else (s1, n))"

text \<open>
  The branch \<^verbatim>\<open>else\<close> of the disambiguation (no face detection in the tracked region).
  It returns the state, the detections left for anonymization, \<^verbatim>\<open>tracked_bbox\<close> and
  the counter value right after the increment.
\<close>

definition no_face_in_region ::
  "'f params \<Rightarrow> 't track_state \<Rightarrow> ('t, 'f) frame_in \<Rightarrow> box \<Rightarrow> box \<Rightarrow>
     't track_state \<times> det list \<times> box \<times> int" where
  "no_face_in_region p s fr prev_bbox tracked_bbox =
     (let dets = face_dets fr in
      case recover_tracking fr prev_bbox dets of
        Some recovered_bbox \<Rightarrow>
          (let (handle', prev_bbox') = init_face_tracker fr recovered_bbox;
               s1 = s\<lparr>face_tracker := Some (handle', prev_bbox'), frames_without_faces := 0\<rparr>;
               dets' = (case recovered_det dets recovered_bbox of
                          Some rd \<Rightarrow> filter (\<lambda>det. det \<noteq> rd) dets
                        | None \<Rightarrow> dets);
               (s2, n) = count_and_reset p s1
           in (s2, dets', prev_bbox', n))
      | None \<Rightarrow>
          (let (s2, n) = count_and_reset p s
           in (s2, dets, tracked_bbox, n)))"

text \<open>
  The final statement \<^verbatim>\<open>prev_bbox = tracked_bbox\<close> of the tracked block; it shows only
  while a tracker is held.
\<close>

definition set_prev_bbox :: "box \<Rightarrow> 't track_state \<Rightarrow> 't track_state" where
  "set_prev_bbox tracked_bbox s =
     (case face_tracker s of
        None \<Rightarrow> s
      | Some (handle, prev_bbox) \<Rightarrow> s\<lparr>face_tracker := Some (handle, tracked_bbox)\<rparr>)"

text \<open>
  Step 3, second half: the block under \<^verbatim>\<open>if tracked_bbox is not None\<close>. The state
  holds a tracker here; the branch for a state without one is never reached from
  \<open>update_tracking\<close> and leaves everything as it is.
\<close>

definition disambiguate ::
  "'f params \<Rightarrow> 't track_state \<Rightarrow> ('t, 'f) frame_in \<Rightarrow> box \<Rightarrow> ('t, 'f) frame_result" where
  "disambiguate p s fr tracked_bbox =
     (let dets = face_dets fr;
          in_tracked = dets_in_tracked dets tracked_bbox;
          current_frame = (if debugging p
                           then add_debugging_overlay p in_tracked tracked_bbox (pixels fr)
                           else pixels fr)
      in if length in_tracked = 1 then
           \<lparr>state_out = set_prev_bbox tracked_bbox (s\<lparr>frames_without_faces := 0\<rparr>),
            anonymization_set = dets_outside dets tracked_bbox,
            out_frame = anonymize_frame p (dets_outside dets tracked_bbox) current_frame,
            incremented = None\<rparr>
         else if length in_tracked > 1 then
           (let dets' = (if intersecting_persons (person_results fr) tracked_bbox \<le> 1
                         then dets_outside dets tracked_bbox else dets)
            in \<lparr>state_out = set_prev_bbox tracked_bbox (s\<lparr>frames_without_faces := 0\<rparr>),
                anonymization_set = dets',
                out_frame = anonymize_frame p dets' current_frame,
                incremented = None\<rparr>)
         else
           (case face_tracker s of
              None \<Rightarrow>
                \<lparr>state_out = s, anonymization_set = dets,
                 out_frame = anonymize_frame p dets current_frame, incremented = None\<rparr>
            | Some (handle, prev_bbox) \<Rightarrow>
                (let (s1, dets', tracked_bbox', n) =
                       no_face_in_region p s fr prev_bbox tracked_bbox
                 in \<lparr>state_out = set_prev_bbox tracked_bbox' s1,
                     anonymization_set = dets',
                     out_frame = anonymize_frame p dets' current_frame,
                     incremented = Some n\<rparr>)))"

text \<open>One iteration of the loop \<^verbatim>\<open>for frame in read_iter\<close>, steps 1 to 4.\<close>

definition frame_step ::
  "'f params \<Rightarrow> 't track_state \<Rightarrow> ('t, 'f) frame_in \<Rightarrow> ('t, 'f) frame_result" where
  "frame_step p s fr =
     (case tracking_phase s fr of
        (s1, None) \<Rightarrow>
          \<lparr>state_out = s1, anonymization_set = face_dets fr,
           out_frame = anonymize_frame p (face_dets fr) (pixels fr), incremented = None\<rparr>
      | (s1, Some tracked_bbox) \<Rightarrow> disambiguate p s1 fr tracked_bbox)"

section \<open>Recovery as the specification describes it\<close>

text \<open>
  Modelled from the spec: \<^verbatim>\<open>recover_tracking\<close> of the module \<^verbatim>\<open>tracking\<close>, which is
  not part of the sources at hand. The specification (Recovery Engine) says: scan the
  current frame's detections, compute the containment ratio of each against the previous
  tracked box, select the detection with the highest ratio if it exceeds the recovery
  threshold 0.5, and return that detection's box. The theorems about the frame step hold
  for every recovery function; this one serves to run the step on concrete frames.
\<close>

fun highest_containment :: "det list \<Rightarrow> box \<Rightarrow> det option" where
  "highest_containment [] prev_bbox = None"
| "highest_containment (d # ds) prev_bbox =
     (case highest_containment ds prev_bbox of
        None \<Rightarrow> Some d
      | Some b \<Rightarrow> if containment b prev_bbox > containment d prev_bbox then Some b else Some d)"

definition recover_tracking_spec :: "box \<Rightarrow> det list \<Rightarrow> box option" where
  "recover_tracking_spec prev_bbox dets =
     (case highest_containment dets prev_bbox of
        None \<Rightarrow> None
      | Some (x1, y1, x2, y2, score) \<Rightarrow>
          if containment (x1, y1, x2, y2, score) prev_bbox > 0.5
          then Some (x1, y1, x2, y2) else None)"

section \<open>Concrete frames\<close>

text \<open>
  A run with the default limit of 30 frames and pixel operations that leave the buffer
  as it is, a state that tracks the region \<open>(0, 0, 100, 100)\<close>, and four frames, their
  pixel buffers numbered 1 to 4: one face inside the tracked region and one
  outside; two faces inside the region with one person box, and with two; a tracker that
  has drifted to \<open>(300, 300, 400, 400)\<close> while the only face is still at the old place;
  and a frame without any face.
\<close>

definition example_params :: "nat params" where
  "example_params =
     \<lparr>disable_tracker_reset = False, max_frames_without_faces = 30, debugging = False,
      enable_preview = False, opath = Some ''out.mp4'',
      anonymize_frame = (\<lambda>dets f. f), add_debugging_overlay = (\<lambda>dets b f. f)\<rparr>"

definition tracking_state :: "int \<Rightarrow> nat track_state" where
  "tracking_state n =
     \<lparr>face_tracker = Some (0, (0, 0, 100, 100)), frames_without_faces = n,
      target_person_found = True, match_score = Some 0.8\<rparr>"

definition frame_one_face :: "(nat, nat) frame_in" where
  "frame_one_face =
     \<lparr>pixels = 1, face_dets = [(10, 10, 50, 50, 0.9), (200, 200, 250, 250, 0.8)],
      person_results = [], find_person = None,
      init_face_tracker = (\<lambda>b. (1, b)),
      update_face_tracker = (\<lambda>h b. Some (0, 0, 100, 100)),
      recover_tracking = recover_tracking_spec, quit_key = False\<rparr>"

definition frame_two_faces :: "person_row list \<Rightarrow> (nat, nat) frame_in" where
  "frame_two_faces rows =
     \<lparr>pixels = 2,
      face_dets = [(10, 10, 40, 40, 0.9), (50, 50, 90, 90, 0.7), (200, 200, 250, 250, 0.8)],
      person_results = rows, find_person = None,
      init_face_tracker = (\<lambda>b. (1, b)),
      update_face_tracker = (\<lambda>h b. Some (0, 0, 100, 100)),
      recover_tracking = recover_tracking_spec, quit_key = False\<rparr>"

definition frame_drifted :: "(nat, nat) frame_in" where
  "frame_drifted =
     \<lparr>pixels = 3, face_dets = [(10, 10, 50, 50, 0.9)],
      person_results = [], find_person = None,
      init_face_tracker = (\<lambda>b. (1, b)),
      update_face_tracker = (\<lambda>h b. Some (300, 300, 400, 400)),
      recover_tracking = recover_tracking_spec, quit_key = False\<rparr>"

definition frame_no_face :: "(nat, nat) frame_in" where
  "frame_no_face =
     \<lparr>pixels = 4, face_dets = [],
      person_results = [], find_person = None,
      init_face_tracker = (\<lambda>b. (1, b)),
      update_face_tracker = (\<lambda>h b. Some (0, 0, 100, 100)),
      recover_tracking = recover_tracking_spec, quit_key = False\<rparr>"

text \<open>
  A frame with two faces inside the tracked region \<open>(600, 100, 900, 600)\<close> and two
  persons: one stands in the region, the other stands 200 pixels to the left of it
  (the box ends at \<open>x = 400\<close>).
\<close>

definition crowd_state :: "nat track_state" where
  "crowd_state =
     \<lparr>face_tracker = Some (0, (600, 100, 900, 600)), frames_without_faces = 0,
      target_person_found = True, match_score = Some 0.8\<rparr>"

definition frame_crowded :: "(nat, nat) frame_in" where
  "frame_crowded =
     \<lparr>pixels = 5,
      face_dets = [(650, 150, 700, 200, 0.9), (800, 150, 850, 200, 0.8)],
      person_results = [(580, 90, 910, 700, 0.9, 0), (250, 100, 400, 600, 0.9, 0)],
      find_person = None,
      init_face_tracker = (\<lambda>b. (1, b)),
      update_face_tracker = (\<lambda>h b. Some (600, 100, 900, 600)),
      recover_tracking = recover_tracking_spec, quit_key = False\<rparr>"

section \<open>The frame loop and \<^verbatim>\<open>video_detect\<close>\<close>

text \<open>
  The loop \<^verbatim>\<open>for frame in read_iter\<close>: each iteration runs the frame step, appends
  the frame to the writer when an output path is given, and leaves the loop when the
  preview is enabled and reports the quit key. The triple holds the state, the frames
  appended to the writer so far, and the number of iterations begun.
\<close>

fun frame_loop ::
  "'f params \<Rightarrow> 't track_state \<Rightarrow> ('t, 'f) frame_in list \<Rightarrow> 'f list \<Rightarrow> nat \<Rightarrow>
     't track_state \<times> 'f list \<times> nat" where
  "frame_loop p s [] written n = (s, written, n)"
| "frame_loop p s (fr # frs) written n =
     (let r = frame_step p s fr;
          written' = (if opath p \<noteq> None then written @ [out_frame r] else written)
      in if enable_preview p \<and> quit_key fr then (state_out r, written', Suc n)
         else frame_loop p (state_out r) frs written' (Suc n))"

text \<open>The value of the cross-frame state at the start of each iteration.\<close>

fun states_before ::
  "'f params \<Rightarrow> 't track_state \<Rightarrow> ('t, 'f) frame_in list \<Rightarrow> 't track_state list" where
  "states_before p s [] = []"
| "states_before p s (fr # frs) = s # states_before p (state_out (frame_step p s fr)) frs"

text \<open>
  What the file system and the codec give for one video: \<open>reader\<close> is \<open>None\<close> when
  \<^verbatim>\<open>imageio.get_reader\<close>, \<^verbatim>\<open>get_meta_data\<close> or the metadata lookup raises, else the
  frames the reader yields; \<open>writer_ok\<close> tells whether \<^verbatim>\<open>imageio.get_writer\<close> succeeds.
\<close>

record ('t, 'f) video_env =
  reader :: "('t, 'f) frame_in list option"
  writer_ok :: bool

text \<open>
  The observable effects of a call: the number of loop iterations begun, and the frames
  of the output video (\<open>None\<close> when no writer was created).
\<close>

record 'f effects =
  frames_processed :: nat
  output_video :: "'f list option"

text \<open>
  \<^verbatim>\<open>video_detect\<close> for a file (\<^verbatim>\<open>cam=False\<close>, as both callers pass it). A reader that
  cannot be opened is caught: the function prints a message and returns \<^verbatim>\<open>None\<close>. A
  writer that cannot be created is raised again. After the loop the function returns
  \<^verbatim>\<open>None\<close> as well; \<open>Inr ()\<close> is that return value.
\<close>

definition video_detect ::
  "'f params \<Rightarrow> ('t, 'f) video_env \<Rightarrow> 'f effects \<times> (py_error + unit)" where
  "video_detect p env =
     (case reader env of
        None \<Rightarrow> (\<lparr>frames_processed = 0, output_video = None\<rparr>, Inr ())
      | Some frames \<Rightarrow>
          if opath p \<noteq> None \<and> \<not> writer_ok env then
            (\<lparr>frames_processed = 0, output_video = None\<rparr>,
             Inl (WriterError ''get_writer''))
          else
            (let (s, written, n) =
                   frame_loop p (initial_state :: 't track_state) frames [] 0
             in (\<lparr>frames_processed = n,
                  output_video = (if opath p \<noteq> None then Some written else None)\<rparr>,
                 Inr ())))"

section \<open>\<^verbatim>\<open>process_video_with_selective_blurring\<close>\<close>

text \<open>\<^verbatim>\<open>str.lower\<close> on ASCII letters, and \<^verbatim>\<open>str.endswith\<close>.\<close>

definition lower_char :: "char \<Rightarrow> char" where
  "lower_char c =
     (let n = (of_char c :: nat) in if 65 \<le> n \<and> n \<le> 90 then char_of (n + 32) else c)"

definition lower :: "string \<Rightarrow> string" where
  "lower f = map lower_char f"

definition endswith :: "string \<Rightarrow> string \<Rightarrow> bool" where
  "endswith f ext = (length ext \<le> length f \<and> drop (length f - length ext) f = ext)"

definition image_extensions :: "string list" where
  "image_extensions = [''.jpg'', ''.jpeg'', ''.png'', ''.bmp'']"

text \<open>\<^verbatim>\<open>os.path.join\<close> of a directory and a file name without a slash.\<close>

definition path_join :: "string \<Rightarrow> string \<Rightarrow> string" where
  "path_join dir f =
     (if dir = [] then f else if last dir = CHR ''/'' then dir @ f else dir @ ''/'' @ f)"

text \<open>
  The world the entry point runs in:
  \<^item> \<open>path_exists\<close>: \<^verbatim>\<open>os.path.exists\<close>;
  \<^item> \<open>listdir\<close>: \<^verbatim>\<open>os.listdir\<close>, \<open>None\<close> for a path that is not a directory;
  \<^item> \<open>image_embeddings\<close>: what one target image contributes: \<open>None\<close> when
    \<^verbatim>\<open>cv2.imread\<close> returns \<^verbatim>\<open>None\<close> or the extraction raises (both are skipped with a
    warning), else the embeddings \<^verbatim>\<open>get_person_embeddings_from_image\<close> returns;
  \<^item> \<open>video\<close>: the reader and writer behaviour for an input path.
  The construction of the three models is taken to succeed.
\<close>

record ('t, 'f, 'e) world =
  path_exists :: "string \<Rightarrow> bool"
  listdir :: "string \<Rightarrow> string list option"
  image_embeddings :: "string \<Rightarrow> 'e list option"
  video :: "string \<Rightarrow> ('t, 'f) video_env"

text \<open>The dictionary the entry point returns.\<close>

record pv_result =
  success :: bool
  input_video :: string
  output_video_path :: string
  target_embeddings_count :: nat

text \<open>
  A call of the entry point: whether the models were constructed, whether
  \<^verbatim>\<open>video_detect\<close> was called, its effects, and the outcome (\<open>Inl\<close> for a raised
  exception, \<open>Inr\<close> for the returned dictionary).
\<close>

record 'f pv_run =
  models_created :: bool
  video_detect_called :: bool
  run_effects :: "'f effects"
  outcome :: "py_error + pv_result"

definition no_effects :: "'f effects" where
  "no_effects = \<lparr>frames_processed = 0, output_video = None\<rparr>"

definition target_images :: "string list \<Rightarrow> string list" where
  "target_images files =
     filter (\<lambda>f. list_ex (\<lambda>ext. endswith (lower f) ext) image_extensions) files"

text \<open>The loop over the target images: unreadable images contribute nothing.\<close>

definition target_embeddings :: "('t, 'f, 'e) world \<Rightarrow> string \<Rightarrow> string list \<Rightarrow> 'e list" where
  "target_embeddings w target_person_dir images =
     concat (map (\<lambda>img_file.
        case image_embeddings w (path_join target_person_dir img_file) of
          None \<Rightarrow> []
        | Some embeddings \<Rightarrow> embeddings) images)"

text \<open>
  \<^verbatim>\<open>process_video_with_selective_blurring(video_path, target_person_dir, output_path, ...)\<close>.
  The options that reach the loop are the fields of \<open>p\<close>; the entry point itself fixes
  \<^verbatim>\<open>enable_preview=False\<close> and passes \<^verbatim>\<open>output_path\<close> as \<^verbatim>\<open>opath\<close>. The handler
  \<^verbatim>\<open>except Exception ... raise\<close> around the call of \<^verbatim>\<open>video_detect\<close> passes an
  exception on.
\<close>

definition process_video_with_selective_blurring ::
  "('t, 'f, 'e) world \<Rightarrow> 'f params \<Rightarrow> string \<Rightarrow> string \<Rightarrow> string \<Rightarrow> 'f pv_run" where
  "process_video_with_selective_blurring w p video_path target_person_dir output_path =
     (if \<not> path_exists w video_path then
        \<lparr>models_created = False, video_detect_called = False, run_effects = no_effects,
         outcome = Inl (FileNotFoundError (''Video file not found: '' @ video_path))\<rparr>
      else if \<not> path_exists w target_person_dir then
        \<lparr>models_created = False, video_detect_called = False, run_effects = no_effects,
         outcome = Inl (FileNotFoundError
            (''Target person directory not found: '' @ target_person_dir))\<rparr>
      else
        (case listdir w target_person_dir of
           None \<Rightarrow>
             \<lparr>models_created = True, video_detect_called = False, run_effects = no_effects,
              outcome = Inl (NotADirectoryError target_person_dir)\<rparr>
         | Some files \<Rightarrow>
             if target_images files = [] then
               \<lparr>models_created = True, video_detect_called = False, run_effects = no_effects,
                outcome = Inl (ValueError
                  (''No images found in target person directory: '' @ target_person_dir))\<rparr>
             else if target_embeddings w target_person_dir (target_images files) = [] then
               \<lparr>models_created = True, video_detect_called = False, run_effects = no_effects,
                outcome = Inl (ValueError
                  ''No valid target person embeddings could be extracted'')\<rparr>
             else
               (case video_detect (p\<lparr>enable_preview := False, opath := Some output_path\<rparr>)
                       (video w video_path) of
                  (eff, Inl e) \<Rightarrow>
                    \<lparr>models_created = True, video_detect_called = True, run_effects = eff,
                     outcome = Inl e\<rparr>
                | (eff, Inr result) \<Rightarrow>
                    \<lparr>models_created = True, video_detect_called = True, run_effects = eff,
                     outcome = Inr \<lparr>success = True, input_video = video_path,
                       output_video_path = output_path,
                       target_embeddings_count =
                         length (target_embeddings w target_person_dir (target_images files))\<rparr>\<rparr>)))"

text \<open>
  Two worlds for a job whose video file and target directory exist, the directory
  holding one image that yields one embedding: in the first the file is not a readable
  video container, in the second it is a video of two frames.
\<close>

definition job_world :: "(nat, nat) frame_in list option \<Rightarrow> (nat, nat, nat) world" where
  "job_world frames =
     \<lparr>path_exists = (\<lambda>path. path = ''job/video.mp4'' \<or> path = ''job/target''),
      listdir = (\<lambda>path. if path = ''job/target'' then Some [''Face.JPG'', ''notes.txt''] else None),
      image_embeddings = (\<lambda>path. if path = ''job/target/Face.JPG'' then Some [7] else None),
      video = (\<lambda>path. \<lparr>reader = frames, writer_ok = True\<rparr>)\<rparr>"

definition empty_dir_world :: "(nat, nat, nat) world" where
  "empty_dir_world =
     \<lparr>path_exists = (\<lambda>path. path = ''job/video.mp4'' \<or> path = ''job/target''),
      listdir = (\<lambda>path. if path = ''job/target'' then Some [''notes.txt''] else None),
      image_embeddings = (\<lambda>path. None),
      video = (\<lambda>path. \<lparr>reader = Some [frame_no_face], writer_ok = True\<rparr>)\<rparr>"

text \<open>A video of two frames whose reader and writer both open.\<close>

definition two_frame_video :: "(nat, nat) video_env" where
  "two_frame_video = \<lparr>reader = Some [frame_one_face, frame_no_face], writer_ok = True\<rparr>"

section \<open>The anonymizer: \<^verbatim>\<open>draw_det\<close>\<close>

text \<open>
  A frame is an array of rows of pixels, a pixel three unsigned bytes (the frames of the
  video reader are \<open>H \<times> W \<times> 3\<close> arrays of \<^verbatim>\<open>uint8\<close>). A colour handed to a
  drawing function is a triple of Python integers.
\<close>

type_synonym pixel = "8 word \<times> 8 word \<times> 8 word"

type_synonym frame = "pixel list list"

type_synonym colour = "int \<times> int \<times> int"

definition has_shape :: "nat \<Rightarrow> nat \<Rightarrow> frame \<Rightarrow> bool" where
  "has_shape H W frame = (length frame = H \<and> list_all (\<lambda>row. length row = W) frame)"

text \<open>The cast of a colour component to a byte: values outside 0..255 are clamped.\<close>

definition saturate_u8 :: "int \<Rightarrow> 8 word" where
  "saturate_u8 v = word_of_int (max 0 (min 255 v))"

definition to_pixel :: "colour \<Rightarrow> pixel" where
  "to_pixel color = (case color of (c0, c1, c2) \<Rightarrow> (saturate_u8 c0, saturate_u8 c1, saturate_u8 c2))"

text \<open>
  \<^verbatim>\<open>cv2.rectangle(frame, pt1, pt2, color, -1)\<close> of the OpenCV library: the filled
  rectangle with the opposite corners \<open>pt1\<close> and \<open>pt2\<close>, both inclusive, a point being
  \<open>(x, y)\<close>; pixels outside the image are left out. The frame is changed in place in
  the source and returned here.
\<close>

definition cv2_rectangle :: "frame \<Rightarrow> int \<times> int \<Rightarrow> int \<times> int \<Rightarrow> colour \<Rightarrow> frame" where
  "cv2_rectangle frame pt1 pt2 color =
     (case pt1 of (xa, ya) \<Rightarrow>
      case pt2 of (xb, yb) \<Rightarrow>
        map (\<lambda>(y, row).
               map (\<lambda>(x, px).
                      if min xa xb \<le> int x \<and> int x \<le> max xa xb \<and>
                         min ya yb \<le> int y \<and> int y \<le> max ya yb
                      then to_pixel color else px)
                   (enumerate 0 row))
            (enumerate 0 frame))"

text \<open>
  The read \<^verbatim>\<open>frame[y, x]\<close> of a numpy array: a negative index counts from the end, an
  index out of range raises \<^verbatim>\<open>IndexError\<close>.
\<close>

definition getpixel :: "frame \<Rightarrow> int \<Rightarrow> int \<Rightarrow> py_error + pixel" where
  "getpixel frame y x =
     (let h = int (length frame);
          yy = (if y < 0 then y + h else y)
      in if 0 \<le> yy \<and> yy < h then
           (let row = frame ! nat yy;
                w = int (length row);
                xx = (if x < 0 then x + w else x)
            in if 0 \<le> xx \<and> xx < w then Inr (row ! nat xx) else Inl IndexError)
         else Inl IndexError)"

text \<open>Python's \<^verbatim>\<open>range(start, stop, step)\<close> for a step other than zero.\<close>

definition py_range :: "int \<Rightarrow> int \<Rightarrow> int \<Rightarrow> int list" where
  "py_range start stop step =
     (if step > 0 then
        map (\<lambda>k. start + int k * step) [0..<nat ((stop - start + step - 1) div step)]
      else if step < 0 then
        map (\<lambda>k. start + int k * step) [0..<nat ((start - stop - step - 1) div (- step))]
      else [])"

text \<open>
  The body of the two mosaic loops for the cell at \<open>(x, y)\<close>: the colour of the pixel
  at the cell's origin is read and the cell is filled with it.
\<close>

definition mosaic_cell :: "frame \<Rightarrow> int \<Rightarrow> int \<Rightarrow> int \<Rightarrow> int \<Rightarrow> int \<Rightarrow> py_error + frame" where
  "mosaic_cell frame x y x2 y2 mosaicsize =
     (case getpixel frame y x of
        Inl e \<Rightarrow> Inl e
      | Inr (c0, c1, c2) \<Rightarrow>
          Inr (cv2_rectangle frame (x, y)
                 (min x2 (x + mosaicsize - 1), min y2 (y + mosaicsize - 1))
                 (uint c0, uint c1, uint c2)))"

text \<open>The inner loop \<^verbatim>\<open>for x in range(x1, x2, mosaicsize)\<close> over its list of values.\<close>

fun mosaic_xs :: "frame \<Rightarrow> int list \<Rightarrow> int \<Rightarrow> int \<Rightarrow> int \<Rightarrow> int \<Rightarrow> py_error + frame" where
  "mosaic_xs frame [] y x2 y2 mosaicsize = Inr frame"
| "mosaic_xs frame (x # xs) y x2 y2 mosaicsize =
     (case mosaic_cell frame x y x2 y2 mosaicsize of
        Inl e \<Rightarrow> Inl e
      | Inr frame' \<Rightarrow> mosaic_xs frame' xs y x2 y2 mosaicsize)"

text \<open>The outer loop \<^verbatim>\<open>for y in range(y1, y2, mosaicsize)\<close>.\<close>

fun mosaic_ys ::
  "frame \<Rightarrow> int list \<Rightarrow> int list \<Rightarrow> int \<Rightarrow> int \<Rightarrow> int \<Rightarrow> py_error + frame" where
  "mosaic_ys frame [] xs x2 y2 mosaicsize = Inr frame"
| "mosaic_ys frame (y # ys) xs x2 y2 mosaicsize =
     (case mosaic_xs frame xs y x2 y2 mosaicsize of
        Inl e \<Rightarrow> Inl e
      | Inr frame' \<Rightarrow> mosaic_ys frame' ys xs x2 y2 mosaicsize)"

text \<open>
  The branch \<^verbatim>\<open>replacewith == 'mosaic'\<close>. \<^verbatim>\<open>range\<close> raises \<^verbatim>\<open>ValueError\<close> for a
  step of zero.
\<close>

definition mosaic :: "frame \<Rightarrow> int \<Rightarrow> int \<Rightarrow> int \<Rightarrow> int \<Rightarrow> int \<Rightarrow> py_error + frame" where
  "mosaic frame x1 y1 x2 y2 mosaicsize =
     (if mosaicsize = 0 then Inl (ValueError ''range() arg 3 must not be zero'')
      else mosaic_ys frame (py_range y1 y2 mosaicsize) (py_range x1 x2 mosaicsize)
             x2 y2 mosaicsize)"

text \<open>Painting a list of points \<open>(x, y)\<close> in one colour; points outside the frame are left out.\<close>

definition paint :: "frame \<Rightarrow> (int \<times> int) list \<Rightarrow> colour \<Rightarrow> frame" where
  "paint frame pts color =
     map (\<lambda>(y, row).
            map (\<lambda>(x, px). if (int x, int y) \<in> set pts then to_pixel color else px)
                (enumerate 0 row))
         (enumerate 0 frame)"

text \<open>
  The drawing operations \<^verbatim>\<open>draw_det\<close> takes from OpenCV and scikit-image that are not
  modelled pixel by pixel: the whole \<^verbatim>\<open>blur\<close> branch and the whole \<^verbatim>\<open>img\<close> branch;
  and the geometry of the font: \<open>text_pixels score x y\<close> are the pixels the strokes of
  the text \<^verbatim>\<open>f'{score:.2f}'\<close> cover when it is drawn at the origin \<open>(x, y)\<close>.
\<close>

record draw_ops =
  blur_region :: "frame \<Rightarrow> int \<Rightarrow> int \<Rightarrow> int \<Rightarrow> int \<Rightarrow> bool \<Rightarrow> py_error + frame"
  paste_image :: "frame \<Rightarrow> int \<Rightarrow> int \<Rightarrow> int \<Rightarrow> int \<Rightarrow> py_error + frame"
  text_pixels :: "real \<Rightarrow> int \<Rightarrow> int \<Rightarrow> (int \<times> int) list"

text \<open>
  \<^verbatim>\<open>cv2.putText(frame, text, org, font, 0.5, (0, 255, 0))\<close> of the OpenCV library: the
  strokes of the text are painted in the given colour, whatever the frame holds.
\<close>

definition cv2_putText :: "draw_ops \<Rightarrow> frame \<Rightarrow> real \<Rightarrow> int \<times> int \<Rightarrow> colour \<Rightarrow> frame" where
  "cv2_putText ops frame score org color =
     (case org of (x, y) \<Rightarrow> paint frame (text_pixels ops score x y) color)"

text \<open>
  \<^verbatim>\<open>draw_det(frame, score, det_idx, x1, y1, x2, y2, replacewith, ellipse, draw_scores,
  ovcolor, replaceimg, mosaicsize)\<close>. The argument \<^verbatim>\<open>det_idx\<close> is not used by the
  source; \<^verbatim>\<open>replaceimg\<close> is part of \<open>paste_image\<close>. A mode other than the four named
  ones (\<^verbatim>\<open>'none'\<close> among them) changes no pixel.
\<close>

definition draw_det ::
  "draw_ops \<Rightarrow> frame \<Rightarrow> real \<Rightarrow> int \<Rightarrow> int \<Rightarrow> int \<Rightarrow> int \<Rightarrow> string \<Rightarrow> bool \<Rightarrow> bool \<Rightarrow>
     colour \<Rightarrow> int \<Rightarrow> py_error + frame" where
  "draw_det ops frame score x1 y1 x2 y2 replacewith ellipse draw_scores ovcolor mosaicsize =
     (case (if replacewith = ''solid'' then
              Inr (cv2_rectangle frame (x1, y1) (x2, y2) ovcolor)
            else if replacewith = ''blur'' then blur_region ops frame x1 y1 x2 y2 ellipse
            else if replacewith = ''img'' then paste_image ops frame x1 y1 x2 y2
            else if replacewith = ''mosaic'' then mosaic frame x1 y1 x2 y2 mosaicsize
            else Inr frame) of
        Inl e \<Rightarrow> Inl e
      | Inr frame' \<Rightarrow>
          Inr (if draw_scores then cv2_putText ops frame' score (x1, y1 - 20) (0, 255, 0)
               else frame'))"

text \<open>
  For the proofs: the pixels a mosaic cell with origin \<open>(y, x)\<close> covers, and the two
  loops run as one pass over a list of cell origins.
\<close>

definition cell_rect :: "int \<Rightarrow> int \<Rightarrow> int \<Rightarrow> int \<times> int \<Rightarrow> int \<times> int \<Rightarrow> bool" where
  "cell_rect x2 y2 mosaicsize c q =
     (case c of (y, x) \<Rightarrow> case q of (qy, qx) \<Rightarrow>
        x \<le> qx \<and> qx \<le> min x2 (x + mosaicsize - 1) \<and>
        y \<le> qy \<and> qy \<le> min y2 (y + mosaicsize - 1))"

fun cell_pass :: "frame \<Rightarrow> (int \<times> int) list \<Rightarrow> int \<Rightarrow> int \<Rightarrow> int \<Rightarrow> py_error + frame" where
  "cell_pass frame [] x2 y2 mosaicsize = Inr frame"
| "cell_pass frame ((y, x) # cs) x2 y2 mosaicsize =
     (case mosaic_cell frame x y x2 y2 mosaicsize of
        Inl e \<Rightarrow> Inl e
      | Inr frame' \<Rightarrow> cell_pass frame' cs x2 y2 mosaicsize)"

text \<open>A frame of four rows and five columns, every pixel different.\<close>

definition small_frame :: frame where
  "small_frame =
     map (\<lambda>y. map (\<lambda>x. (word_of_nat (10 * y + x), word_of_nat y, word_of_nat x)) [0..<5]) [0..<4]"

text \<open>
  Drawing operations for the small frame: the blur and image branches leave the frame as
  it is, and the score text covers two pixels, one row above the box's top.
\<close>

definition toy_ops :: draw_ops where
  "toy_ops =
     \<lparr>blur_region = (\<lambda>f x1 y1 x2 y2 e. Inr f), paste_image = (\<lambda>f x1 y1 x2 y2. Inr f),
      text_pixels = (\<lambda>s x y. [(x, y + 19), (x + 1, y + 19)])\<rparr>"

section \<open>Containment ratio\<close>

lemma share_point_iff:
  "share_point (ax1, ay1, ax2, ay2) (bx1, by1, bx2, by2) \<longleftrightarrow>
     max ax1 bx1 \<le> min ax2 bx2 \<and> max ay1 by1 \<le> min ay2 by2"
proof
  assume "share_point (ax1, ay1, ax2, ay2) (bx1, by1, bx2, by2)"
  then show "max ax1 bx1 \<le> min ax2 bx2 \<and> max ay1 by1 \<le> min ay2 by2"
    by (auto simp: share_point_def)
next
  assume a: "max ax1 bx1 \<le> min ax2 bx2 \<and> max ay1 by1 \<le> min ay2 by2"
  have "ax1 \<le> max ax1 bx1 \<and> max ax1 bx1 \<le> ax2 \<and> ay1 \<le> max ay1 by1 \<and> max ay1 by1 \<le> ay2 \<and>
        bx1 \<le> max ax1 bx1 \<and> max ax1 bx1 \<le> bx2 \<and> by1 \<le> max ay1 by1 \<and> max ay1 by1 \<le> by2"
    using a by auto
  then show "share_point (ax1, ay1, ax2, ay2) (bx1, by1, bx2, by2)"
    unfolding share_point_def by (simp only: prod.case) blast
qed

text \<open>
  C10. \<^verbatim>\<open>calculate_containment_ratio\<close> returns a number for every pair of boxes and
  never divides by zero (the result is never the \<open>ZeroDivisionError\<close> branch). For a
  detection of zero or negative area the number is 0. For a detection of positive width
  and height lying wholly inside the tracking box it is 1. For a detection disjoint from
  the tracking box it is 0, whether disjoint means that the detection lies beyond one of
  the four sides of the tracking box or that the two rectangles share no point.
\<close>

theorem calculate_containment_ratio_total:
  "(\<exists>r. calculate_containment_ratio (x, y, w, h) (tx1, ty1, tx2, ty2) = Inr r) \<and>
   (w * h \<le> 0 \<longrightarrow> calculate_containment_ratio (x, y, w, h) (tx1, ty1, tx2, ty2) = Inr 0) \<and>
   (0 < w \<and> 0 < h \<and> tx1 \<le> x \<and> ty1 \<le> y \<and> x + w \<le> tx2 \<and> y + h \<le> ty2 \<longrightarrow>
      calculate_containment_ratio (x, y, w, h) (tx1, ty1, tx2, ty2) = Inr 1) \<and>
   (x + w \<le> tx1 \<or> tx2 \<le> x \<or> y + h \<le> ty1 \<or> ty2 \<le> y \<longrightarrow>
      calculate_containment_ratio (x, y, w, h) (tx1, ty1, tx2, ty2) = Inr 0) \<and>
   (\<not> share_point (x, y, x + w, y + h) (tx1, ty1, tx2, ty2) \<longrightarrow>
      calculate_containment_ratio (x, y, w, h) (tx1, ty1, tx2, ty2) = Inr 0)"
proof (intro conjI impI)
  show "\<exists>r. calculate_containment_ratio (x, y, w, h) (tx1, ty1, tx2, ty2) = Inr r"
    by (simp add: calculate_containment_ratio_def Let_def py_truediv_def)
next
  assume "w * h \<le> 0"
  then show "calculate_containment_ratio (x, y, w, h) (tx1, ty1, tx2, ty2) = Inr 0"
    by (simp add: calculate_containment_ratio_def Let_def)
next
  assume a: "0 < w \<and> 0 < h \<and> tx1 \<le> x \<and> ty1 \<le> y \<and> x + w \<le> tx2 \<and> y + h \<le> ty2"
  then have pos: "0 < w * h" by simp
  from a have mx: "max x tx1 = x" "max y ty1 = y" "min (x + w) tx2 = x + w"
    "min (y + h) ty2 = y + h" by (simp_all add: max_def min_def)
  from a have mw: "max 0 w = w" "max 0 h = h" by (simp_all add: max_def)
  show "calculate_containment_ratio (x, y, w, h) (tx1, ty1, tx2, ty2) = Inr 1"
    using pos a by (simp add: calculate_containment_ratio_def Let_def mx mw py_truediv_def)
next
  assume d: "x + w \<le> tx1 \<or> tx2 \<le> x \<or> y + h \<le> ty1 \<or> ty2 \<le> y"
  then have "max 0 (min (x + w) tx2 - max x tx1) = 0 \<or> max 0 (min (y + h) ty2 - max y ty1) = 0"
    by (auto simp: max_def min_def)
  then have "max 0 (min (x + w) tx2 - max x tx1) * max 0 (min (y + h) ty2 - max y ty1) = 0"
    by auto
  then show "calculate_containment_ratio (x, y, w, h) (tx1, ty1, tx2, ty2) = Inr 0"
    by (simp add: calculate_containment_ratio_def Let_def py_truediv_def)
next
  assume "\<not> share_point (x, y, x + w, y + h) (tx1, ty1, tx2, ty2)"
  then have "min (x + w) tx2 < max x tx1 \<or> min (y + h) ty2 < max y ty1"
    by (auto simp: share_point_iff)
  then have "max 0 (min (x + w) tx2 - max x tx1) = 0 \<or> max 0 (min (y + h) ty2 - max y ty1) = 0"
    by auto
  then have "max 0 (min (x + w) tx2 - max x tx1) * max 0 (min (y + h) ty2 - max y ty1) = 0"
    by auto
  then show "calculate_containment_ratio (x, y, w, h) (tx1, ty1, tx2, ty2) = Inr 0"
    by (simp add: calculate_containment_ratio_def Let_def py_truediv_def)
qed

theorem calculate_containment_ratio_total_witness:
  "(0::real) * 5 \<le> 0 \<and>
   calculate_containment_ratio (10, 10, 0, 5) (0, 0, 100, 100) = Inr 0 \<and>
   calculate_containment_ratio (10, 10, 20, 20) (0, 0, 100, 100) = Inr 1 \<and>
   \<not> share_point (10, 10, 10 + 20, 10 + 20) (50, 50, 100, 100) \<and>
   calculate_containment_ratio (10, 10, 20, 20) (50, 50, 100, 100) = Inr 0 \<and>
   calculate_containment_ratio (40, 40, 20, 20) (50, 50, 100, 100) = Inr (1 / 4)"
proof -
  have quarter: "calculate_containment_ratio (40, 40, 20, 20) (50, 50, 100, 100) = Inr (1 / 4)"
    by (simp add: calculate_containment_ratio_def Let_def py_truediv_def)
  have apart: "\<not> share_point (10, 10, 10 + 20, 10 + 20) (50, 50, 100, 100)"
    by (simp add: share_point_iff)
  show ?thesis
    using calculate_containment_ratio_total [of 10 10 0 5 0 0 100 100]
      calculate_containment_ratio_total [of 10 10 20 20 0 0 100 100]
      calculate_containment_ratio_total [of 10 10 20 20 50 50 100 100]
      quarter apart
    by simp
qed

section \<open>Evaluation rules for concrete frames\<close>

lemmas containment_eval =
  containment_def calculate_containment_ratio_def det_xywh_def py_truediv_def
  CONTAINMENT_THRESHOLD_def Let_def

lemmas frame_eval =
  frame_step_def tracking_phase_def acquire_def update_tracking_def disambiguate_def
  dets_in_tracked_def dets_outside_def no_face_in_region_def count_and_reset_def
  set_prev_bbox_def recovered_det_def recover_tracking_spec_def intersecting_persons_def
  person_boxes_def boxes_intersect_def

lemma containment_is_result:
  "calculate_containment_ratio (det_xywh det) tb = Inr (containment det tb)"
  by (cases det; cases tb)
     (simp add: containment_def calculate_containment_ratio_def det_xywh_def Let_def py_truediv_def)

lemma frames_without_faces_set_prev_bbox [simp]:
  "frames_without_faces (set_prev_bbox tb s) = frames_without_faces s"
  by (simp add: set_prev_bbox_def split: option.splits)

lemma tracking_phase_example:
  "tracking_phase (tracking_state n) frame_one_face = (tracking_state n, Some (0, 0, 100, 100))"
  "tracking_phase (tracking_state n) (frame_two_faces rows) =
     (tracking_state n, Some (0, 0, 100, 100))"
  "tracking_phase (tracking_state n) frame_no_face = (tracking_state n, Some (0, 0, 100, 100))"
  "tracking_phase (tracking_state n) frame_drifted = (tracking_state n, Some (300, 300, 400, 400))"
  by (simp_all add: tracking_phase_def acquire_def update_tracking_def tracking_state_def
      frame_one_face_def frame_two_faces_def frame_no_face_def frame_drifted_def)

section \<open>Disambiguation\<close>

text \<open>
  C1. In a frame processed while tracking (the tracker update or the recovery after a
  tracker failure gives a tracked box \<open>tb\<close>), if exactly one face detection has a
  containment ratio above 0.5 against \<open>tb\<close>, then that detection is not among the
  detections passed to the anonymizer, the counter \<^verbatim>\<open>frames_without_faces\<close> is 0 at the
  end of the frame, and the anonymization set is disjoint from the target detection.
\<close>

theorem single_in_region_face_excluded:
  assumes "tracking_phase s fr = (s1, Some tb)"
    and "length (dets_in_tracked (face_dets fr) tb) = 1"
    and "d \<in> set (face_dets fr)"
    and "containment d tb > 0.5"
  shows "d \<notin> set (anonymization_set (frame_step p s fr)) \<and>
         frames_without_faces (state_out (frame_step p s fr)) = 0 \<and>
         set (anonymization_set (frame_step p s fr)) \<inter> {d} = {}"
proof -
  have r: "frame_step p s fr = disambiguate p s1 fr tb"
    using assms(1) by (simp add: frame_step_def)
  have out: "d \<notin> set (dets_outside (face_dets fr) tb)"
    using assms(4) by (simp add: dets_outside_def CONTAINMENT_THRESHOLD_def)
  show ?thesis
    using assms(2) out by (simp add: r disambiguate_def Let_def)
qed

theorem single_in_region_face_excluded_witness:
  "tracking_phase (tracking_state 3) frame_one_face = (tracking_state 3, Some (0, 0, 100, 100)) \<and>
   length (dets_in_tracked (face_dets frame_one_face) (0, 0, 100, 100)) = 1 \<and>
   (10, 10, 50, 50, 0.9) \<in> set (face_dets frame_one_face) \<and>
   containment (10, 10, 50, 50, 0.9) (0, 0, 100, 100) > 0.5 \<and>
   (10, 10, 50, 50, 0.9) \<notin>
     set (anonymization_set (frame_step example_params (tracking_state 3) frame_one_face)) \<and>
   frames_without_faces (state_out (frame_step example_params (tracking_state 3) frame_one_face)) = 0"
proof -
  have h1: "tracking_phase (tracking_state 3) frame_one_face =
      (tracking_state 3, Some (0, 0, 100, 100))"
    by (rule tracking_phase_example)
  have h2: "length (dets_in_tracked (face_dets frame_one_face) (0, 0, 100, 100)) = 1"
    by (simp add: dets_in_tracked_def frame_one_face_def containment_eval)
  have h3: "(10, 10, 50, 50, 0.9) \<in> set (face_dets frame_one_face)"
    by (simp add: frame_one_face_def)
  have h4: "containment (10, 10, 50, 50, 0.9) (0, 0, 100, 100) > 0.5"
    by (simp add: containment_eval)
  show ?thesis
    using single_in_region_face_excluded [OF h1 h2 h3 h4, of example_params] h1 h2 h3 h4
    by simp
qed

text \<open>
  The policy of the multi-face branch in terms of the number the loop computes,
  \<open>intersecting_persons\<close>: when it is at most 1, no in-region face detection is in the
  anonymization set; when it is greater than 1, every in-region face detection is in it.
\<close>

lemma multi_face_policy:
  assumes "tracking_phase s fr = (s1, Some tb)"
    and "length (dets_in_tracked (face_dets fr) tb) > 1"
  shows "(intersecting_persons (person_results fr) tb \<le> 1 \<longrightarrow>
            (\<forall>d \<in> set (face_dets fr). containment d tb > 0.5 \<longrightarrow>
               d \<notin> set (anonymization_set (frame_step p s fr)))) \<and>
         (intersecting_persons (person_results fr) tb > 1 \<longrightarrow>
            (\<forall>d \<in> set (face_dets fr). containment d tb > 0.5 \<longrightarrow>
               d \<in> set (anonymization_set (frame_step p s fr))))"
proof -
  have r: "frame_step p s fr = disambiguate p s1 fr tb"
    using assms(1) by (simp add: frame_step_def)
  have n1: "length (dets_in_tracked (face_dets fr) tb) \<noteq> 1"
    using assms(2) by simp
  have few: "intersecting_persons (person_results fr) tb \<le> 1 \<Longrightarrow>
      anonymization_set (disambiguate p s1 fr tb) = dets_outside (face_dets fr) tb"
    using assms(2) n1 by (simp add: disambiguate_def Let_def)
  have many: "intersecting_persons (person_results fr) tb > 1 \<Longrightarrow>
      anonymization_set (disambiguate p s1 fr tb) = face_dets fr"
    using assms(2) n1 by (simp add: disambiguate_def Let_def)
  show ?thesis
    using few many by (auto simp: r dets_outside_def CONTAINMENT_THRESHOLD_def)
qed

lemma multi_face_policy_example:
  "tracking_phase (tracking_state 3) (frame_two_faces [(0, 0, 60, 60, 0.9, 0)]) =
     (tracking_state 3, Some (0, 0, 100, 100)) \<and>
   length (dets_in_tracked (face_dets (frame_two_faces [(0, 0, 60, 60, 0.9, 0)]))
     (0, 0, 100, 100)) > 1 \<and>
   intersecting_persons [(0, 0, 60, 60, 0.9, 0)] (0, 0, 100, 100) \<le> 1 \<and>
   anonymization_set (frame_step example_params (tracking_state 3)
      (frame_two_faces [(0, 0, 60, 60, 0.9, 0)])) = [(200, 200, 250, 250, 0.8)] \<and>
   tracking_phase (tracking_state 3)
      (frame_two_faces [(0, 0, 60, 60, 0.9, 0), (40, 40, 95, 95, 0.5, 0)]) =
     (tracking_state 3, Some (0, 0, 100, 100)) \<and>
   intersecting_persons [(0, 0, 60, 60, 0.9, 0), (40, 40, 95, 95, 0.5, 0)] (0, 0, 100, 100) > 1 \<and>
   (10, 10, 40, 40, 0.9) \<in> set (anonymization_set (frame_step example_params (tracking_state 3)
      (frame_two_faces [(0, 0, 60, 60, 0.9, 0), (40, 40, 95, 95, 0.5, 0)])))"
proof -
  let ?one = "[(0, 0, 60, 60, 0.9, 0)] :: person_row list"
  let ?two = "[(0, 0, 60, 60, 0.9, 0), (40, 40, 95, 95, 0.5, 0)] :: person_row list"
  have h1: "tracking_phase (tracking_state 3) (frame_two_faces rows) =
      (tracking_state 3, Some (0, 0, 100, 100))" for rows
    by (rule tracking_phase_example)
  have h2: "length (dets_in_tracked (face_dets (frame_two_faces rows)) (0, 0, 100, 100)) > 1"
    for rows
    by (simp add: dets_in_tracked_def frame_two_faces_def containment_eval)
  have c1: "intersecting_persons ?one (0, 0, 100, 100) \<le> 1"
    by (simp add: intersecting_persons_def person_boxes_def boxes_intersect_def)
  have c2: "intersecting_persons ?two (0, 0, 100, 100) > 1"
    by (simp add: intersecting_persons_def person_boxes_def boxes_intersect_def)
  have pr: "person_results (frame_two_faces rows) = rows" for rows
    by (simp add: frame_two_faces_def)
  have fd: "face_dets (frame_two_faces rows) =
      [(10, 10, 40, 40, 0.9), (50, 50, 90, 90, 0.7), (200, 200, 250, 250, 0.8)]" for rows
    by (simp add: frame_two_faces_def)
  have a: "anonymization_set (frame_step example_params (tracking_state 3)
      (frame_two_faces ?one)) = [(200, 200, 250, 250, 0.8)]"
    using h1 [of ?one] h2 [of ?one] c1
    by (simp add: frame_step_def disambiguate_def Let_def pr fd dets_outside_def containment_eval)
  have b: "(10, 10, 40, 40, 0.9) \<in> set (anonymization_set (frame_step example_params
      (tracking_state 3) (frame_two_faces ?two)))"
    using multi_face_policy [OF h1 [of ?two] h2 [of ?two], of example_params] c2
    by (simp add: pr fd containment_eval)
  show ?thesis
    using h1 h2 c1 c2 a b by simp
qed

text \<open>
  A person box in corner format that lies in the image (non-negative origin) and shares
  a point with the tracked box is counted by \<^verbatim>\<open>boxes_intersect\<close>; the converse fails.
\<close>

lemma overlap_is_counted:
  assumes "0 \<le> x1" and "0 \<le> y1"
    and "share_point (x1, y1, x2, y2) (tx1, ty1, tx2, ty2)"
  shows "boxes_intersect (x1, y1, x2, y2) (tx1, ty1, tx2, ty2)"
  using assms by (auto simp: share_point_def boxes_intersect_def Let_def)

text \<open>
  C2. The claim: in a frame processed while tracking with more than one in-region face
  detection, if the count of person boxes (confidence at least 0.3) intersecting the
  tracked box is at most 1, every in-region face detection is excluded from the
  anonymization set; if it is greater than 1, every in-region face stays in the set. The
  code, on the frame \<open>frame_crowded\<close> (tracked box \<open>(600, 100, 900, 600)\<close>, two
  in-region faces, person boxes \<open>(580, 90, 910, 700)\<close> and \<open>(250, 100, 400, 600)\<close>):
  one person box shares a point with the tracked box, yet the loop counts two, because
  \<^verbatim>\<open>boxes_intersect\<close> reads the second box as the rectangle from \<open>(250, 100)\<close> to
  \<open>(650, 700)\<close>; both in-region faces stay in the anonymization set.
\<close>

theorem lone_person_faces_stay_in_set:
  "tracking_phase crowd_state frame_crowded = (crowd_state, Some (600, 100, 900, 600)) \<and>
   dets_in_tracked (face_dets frame_crowded) (600, 100, 900, 600) =
     [(650, 150, 700, 200, 0.9), (800, 150, 850, 200, 0.8)] \<and>
   overlapping_persons (person_results frame_crowded) (600, 100, 900, 600) = 1 \<and>
   intersecting_persons (person_results frame_crowded) (600, 100, 900, 600) = 2 \<and>
   anonymization_set (frame_step example_params crowd_state frame_crowded) =
     [(650, 150, 700, 200, 0.9), (800, 150, 850, 200, 0.8)]"
proof -
  have tp: "tracking_phase crowd_state frame_crowded = (crowd_state, Some (600, 100, 900, 600))"
    by (simp add: tracking_phase_def acquire_def update_tracking_def crowd_state_def
        frame_crowded_def)
  have fd: "face_dets frame_crowded = [(650, 150, 700, 200, 0.9), (800, 150, 850, 200, 0.8)]"
    and pr: "person_results frame_crowded =
      [(580, 90, 910, 700, 0.9, 0), (250, 100, 400, 600, 0.9, 0)]"
    by (simp_all add: frame_crowded_def)
  have inr: "dets_in_tracked (face_dets frame_crowded) (600, 100, 900, 600) =
      [(650, 150, 700, 200, 0.9), (800, 150, 850, 200, 0.8)]"
    by (simp add: fd dets_in_tracked_def containment_eval)
  have true_count: "overlapping_persons (person_results frame_crowded) (600, 100, 900, 600) = 1"
    by (simp add: pr overlapping_persons_def person_boxes_def share_point_iff)
  have code_count: "intersecting_persons (person_results frame_crowded) (600, 100, 900, 600) = 2"
    by (simp add: pr intersecting_persons_def person_boxes_def boxes_intersect_def)
  have out: "anonymization_set (frame_step example_params crowd_state frame_crowded) =
      [(650, 150, 700, 200, 0.9), (800, 150, 850, 200, 0.8)]"
    using inr code_count by (simp add: frame_step_def tp disambiguate_def Let_def fd)
  show ?thesis
    using tp inr true_count code_count out by simp
qed

section \<open>The intersection test\<close>

text \<open>
  What \<^verbatim>\<open>boxes_intersect\<close> decides for a first argument in corner format: whether the
  rectangle from \<open>(x1, y1)\<close> to \<open>(x1 + x2, y1 + y2)\<close> shares a point with the second
  box, as long as that rectangle is well formed.
\<close>

lemma boxes_intersect_corner_format:
  assumes "0 \<le> x2" and "0 \<le> y2" and "tx1 \<le> tx2" and "ty1 \<le> ty2"
  shows "boxes_intersect (x1, y1, x2, y2) (tx1, ty1, tx2, ty2) \<longleftrightarrow>
         share_point (x1, y1, x1 + x2, y1 + y2) (tx1, ty1, tx2, ty2)"
  using assms by (auto simp: boxes_intersect_def share_point_iff Let_def)

text \<open>
  C3. The claim: a person box in corner format counts toward the intersecting-person
  count exactly when its rectangle and the tracked box share a point. The code counts
  the person box \<open>(10, 10, 20, 20)\<close> against the tracked box \<open>(25, 25, 100, 100)\<close>,
  although the two rectangles share no point: \<^verbatim>\<open>boxes_intersect\<close> reads its first
  argument as \<open>(x, y, w, h)\<close> and so tests the rectangle from \<open>(10, 10)\<close> to
  \<open>(30, 30)\<close>.
\<close>

theorem separate_person_box_is_counted:
  "\<not> share_point (10, 10, 20, 20) (25, 25, 100, 100) \<and>
   boxes_intersect (10, 10, 20, 20) (25, 25, 100, 100) \<and>
   intersecting_persons [(10, 10, 20, 20, 0.9, 0)] (25, 25, 100, 100) = 1"
  by (simp add: share_point_iff boxes_intersect_def intersecting_persons_def person_boxes_def)

section \<open>The counter of frames without a face\<close>

text \<open>
  The counter is incremented only in frames that are processed while tracking and have
  no face detection in the tracked region.
\<close>

lemma increment_needs_empty_region:
  assumes "incremented (frame_step p s fr) = Some n"
  shows "\<exists>s1 tb. tracking_phase s fr = (s1, Some tb) \<and> dets_in_tracked (face_dets fr) tb = []"
proof -
  obtain s1 tbo where tp: "tracking_phase s fr = (s1, tbo)"
    by (cases "tracking_phase s fr") auto
  show ?thesis
  proof (cases tbo)
    case None
    then show ?thesis using tp assms by (simp add: frame_step_def)
  next
    case (Some tb)
    then have "incremented (disambiguate p s1 fr tb) = Some n"
      using tp assms by (simp add: frame_step_def)
    moreover have "incremented (disambiguate p s1 fr tb) = None"
      if "length (dets_in_tracked (face_dets fr) tb) = 1 \<or>
          length (dets_in_tracked (face_dets fr) tb) > 1"
      using that by (auto simp: disambiguate_def Let_def)
    ultimately have "\<not> (length (dets_in_tracked (face_dets fr) tb) = 1 \<or>
        length (dets_in_tracked (face_dets fr) tb) > 1)"
      by auto
    then have "length (dets_in_tracked (face_dets fr) tb) = 0"
      by linarith
    then show ?thesis using tp Some by simp
  qed
qed

text \<open>
  When the no-face branch recovers the track, the counter is set to 0 and then
  incremented by the statement that follows the recovery block, whatever the recovery
  function is.
\<close>

lemma recovery_is_counted:
  assumes "tracking_phase s fr = (s1, Some tb)"
    and "dets_in_tracked (face_dets fr) tb = []"
    and "face_tracker s1 = Some (h, pb)"
    and "recover_tracking fr pb (face_dets fr) = Some rb"
  shows "incremented (frame_step p s fr) = Some 1"
proof -
  have r: "frame_step p s fr = disambiguate p s1 fr tb"
    using assms(1) by (simp add: frame_step_def)
  obtain s2 ds tb' n where nf: "no_face_in_region p s1 fr pb tb = (s2, ds, tb', n)"
    by (cases "no_face_in_region p s1 fr pb tb") auto
  have "n = 1"
    using nf assms(4)
    by (auto simp: no_face_in_region_def count_and_reset_def Let_def split: prod.splits if_splits)
  then show ?thesis
    using assms(2) assms(3) nf by (simp add: r disambiguate_def Let_def)
qed

text \<open>
  C4. The claim: the counter increments only in frames with no in-region face and a
  failed recovery, and it ends at zero in every frame in which a face is attributed to
  the tracked region, a recovered one included. The code, on the frame \<open>frame_drifted\<close>
  (tracker at \<open>(300, 300, 400, 400)\<close>, previous box \<open>(0, 0, 100, 100)\<close>, one face at
  \<open>(10, 10, 50, 50)\<close>, counter 0): no face is in region, the recovery returns the face's
  box, the face is taken out of the anonymization set and the tracker is started again
  on it, and yet the counter is incremented and ends the frame at 1.
\<close>

theorem recovered_face_leaves_counter_at_one:
  "dets_in_tracked (face_dets frame_drifted) (300, 300, 400, 400) = [] \<and>
   recover_tracking frame_drifted (0, 0, 100, 100) (face_dets frame_drifted) =
     Some (10, 10, 50, 50) \<and>
   anonymization_set (frame_step example_params (tracking_state 0) frame_drifted) = [] \<and>
   face_tracker (state_out (frame_step example_params (tracking_state 0) frame_drifted)) =
     Some (1, (10, 10, 50, 50)) \<and>
   incremented (frame_step example_params (tracking_state 0) frame_drifted) = Some 1 \<and>
   frames_without_faces (state_out (frame_step example_params (tracking_state 0) frame_drifted)) = 1"
  by (simp add: frame_eval frame_drifted_def tracking_state_def example_params_def containment_eval)

lemma count_and_reset_below:
  assumes "\<not> disable_tracker_reset p" and "1 \<le> max_frames_without_faces p"
  shows "frames_without_faces (fst (count_and_reset p s)) < max_frames_without_faces p"
  using assms by (simp add: count_and_reset_def Let_def)

lemma no_face_in_region_below:
  assumes "\<not> disable_tracker_reset p" and "1 \<le> max_frames_without_faces p"
  shows "frames_without_faces (fst (no_face_in_region p s fr pb tb)) < max_frames_without_faces p"
proof (cases "recover_tracking fr pb (face_dets fr)")
  case None
  then show ?thesis
    using count_and_reset_below [OF assms, of s]
    by (auto simp: no_face_in_region_def Let_def split: prod.splits)
next
  case (Some rb)
  obtain h' pb' where i: "init_face_tracker fr rb = (h', pb')"
    by (cases "init_face_tracker fr rb") auto
  show ?thesis
    using Some i
      count_and_reset_below [OF assms, of "s\<lparr>face_tracker := Some (h', pb'), frames_without_faces := 0\<rparr>"]
    by (auto simp: no_face_in_region_def Let_def split: prod.splits)
qed

lemma disambiguate_below:
  assumes "\<not> disable_tracker_reset p" and "1 \<le> max_frames_without_faces p"
    and "frames_without_faces s < max_frames_without_faces p"
  shows "frames_without_faces (state_out (disambiguate p s fr tb)) < max_frames_without_faces p"
proof (cases "face_tracker s")
  case None
  then show ?thesis
    using assms by (simp add: disambiguate_def Let_def)
next
  case (Some hp)
  obtain h pb where hp: "hp = (h, pb)" by (cases hp) auto
  obtain s2 ds tb' n where nf: "no_face_in_region p s fr pb tb = (s2, ds, tb', n)"
    by (cases "no_face_in_region p s fr pb tb") auto
  have "frames_without_faces s2 < max_frames_without_faces p"
    using no_face_in_region_below [OF assms(1,2), of s fr pb tb] nf by simp
  then show ?thesis
    using assms Some hp nf by (simp add: disambiguate_def Let_def)
qed

lemma tracking_phase_counter:
  "frames_without_faces (fst (tracking_phase s fr)) = frames_without_faces s"
  by (simp add: tracking_phase_def acquire_def update_tracking_def
      split: option.splits prod.splits)

text \<open>
  With automatic reset enabled and a limit of at least 1, the counter is below the
  limit at the end of every frame that it entered below the limit.
\<close>

lemma counter_stays_below_maximum:
  assumes "\<not> disable_tracker_reset p" and "1 \<le> max_frames_without_faces p"
    and "frames_without_faces s < max_frames_without_faces p"
  shows "frames_without_faces (state_out (frame_step p s fr)) < max_frames_without_faces p"
proof -
  obtain s1 tbo where tp: "tracking_phase s fr = (s1, tbo)"
    by (cases "tracking_phase s fr") auto
  have c: "frames_without_faces s1 < max_frames_without_faces p"
    using tracking_phase_counter [of s fr] tp assms(3) by simp
  show ?thesis
  proof (cases tbo)
    case None
    then show ?thesis using tp c by (simp add: frame_step_def)
  next
    case (Some tb)
    then show ?thesis
      using tp disambiguate_below [OF assms(1,2) c, of fr tb] by (simp add: frame_step_def)
  qed
qed

text \<open>Hence, in a run, the counter is below the limit at the start of every frame.\<close>

lemma run_counter_below_maximum:
  assumes "\<not> disable_tracker_reset p" and "1 \<le> max_frames_without_faces p"
    and "frames_without_faces s < max_frames_without_faces p"
  shows "\<forall>s' \<in> set (states_before p s frs).
           frames_without_faces s' < max_frames_without_faces p"
  using assms(3)
proof (induction frs arbitrary: s)
  case Nil
  then show ?case by simp
next
  case (Cons fr frs)
  have "frames_without_faces (state_out (frame_step p s fr)) < max_frames_without_faces p"
    using assms(1,2) Cons.prems by (rule counter_stays_below_maximum)
  then show ?case
    using Cons.IH Cons.prems by simp
qed

lemma count_and_reset_at_maximum:
  assumes "\<not> disable_tracker_reset p" and "count_and_reset p s = (s2, n)"
    and "n \<ge> max_frames_without_faces p"
  shows "face_tracker s2 = None \<and> \<not> target_person_found s2 \<and> frames_without_faces s2 = 0"
  using assms by (auto simp: count_and_reset_def Let_def split: if_splits)

lemma no_face_in_region_at_maximum:
  assumes "\<not> disable_tracker_reset p" and "no_face_in_region p s fr pb tb = (s2, ds, tb', n)"
    and "n \<ge> max_frames_without_faces p"
  shows "face_tracker s2 = None \<and> \<not> target_person_found s2 \<and> frames_without_faces s2 = 0"
proof (cases "recover_tracking fr pb (face_dets fr)")
  case None
  then have "count_and_reset p s = (s2, n)"
    using assms(2) by (simp add: no_face_in_region_def Let_def split: prod.splits)
  then show ?thesis
    using count_and_reset_at_maximum [OF assms(1) _ assms(3)] by blast
next
  case (Some rb)
  obtain h' pb' where i: "init_face_tracker fr rb = (h', pb')"
    by (cases "init_face_tracker fr rb") auto
  have "count_and_reset p (s\<lparr>face_tracker := Some (h', pb'), frames_without_faces := 0\<rparr>) = (s2, n)"
    using assms(2) Some i by (simp add: no_face_in_region_def Let_def split: prod.splits)
  then show ?thesis
    using count_and_reset_at_maximum [OF assms(1) _ assms(3)] by blast
qed

lemma disambiguate_at_maximum:
  assumes "\<not> disable_tracker_reset p"
    and "incremented (disambiguate p s fr tb) = Some n"
    and "n \<ge> max_frames_without_faces p"
  shows "face_tracker (state_out (disambiguate p s fr tb)) = None \<and>
         \<not> target_person_found (state_out (disambiguate p s fr tb)) \<and>
         frames_without_faces (state_out (disambiguate p s fr tb)) = 0"
proof (cases "face_tracker s")
  case None
  then show ?thesis
    using assms(2) by (simp add: disambiguate_def Let_def split: if_splits)
next
  case (Some hp)
  obtain h pb where hp: "hp = (h, pb)" by (cases hp) auto
  obtain s2 ds tb' m where nf: "no_face_in_region p s fr pb tb = (s2, ds, tb', m)"
    by (cases "no_face_in_region p s fr pb tb") auto
  have branch: "\<not> length (dets_in_tracked (face_dets fr) tb) = 1"
    "\<not> length (dets_in_tracked (face_dets fr) tb) > 1"
    using assms(2) by (auto simp: disambiguate_def Let_def split: if_splits)
  have out: "disambiguate p s fr tb =
      \<lparr>state_out = set_prev_bbox tb' s2, anonymization_set = ds,
       out_frame = anonymize_frame p ds (if debugging p
          then add_debugging_overlay p (dets_in_tracked (face_dets fr) tb) tb (pixels fr)
          else pixels fr),
       incremented = Some m\<rparr>"
    using branch Some hp nf by (simp add: disambiguate_def Let_def)
  have "m = n" using assms(2) out by simp
  then have "face_tracker s2 = None \<and> \<not> target_person_found s2 \<and> frames_without_faces s2 = 0"
    using no_face_in_region_at_maximum [OF assms(1) nf] assms(3) by simp
  then show ?thesis
    by (simp add: out set_prev_bbox_def)
qed

text \<open>
  C5. With automatic reset enabled (\<^verbatim>\<open>disable_tracker_reset\<close> false): whenever the
  counter, in the course of a frame, is incremented to a value that reaches
  \<^verbatim>\<open>max_frames_without_faces\<close>, the frame ends with the tracker handle discarded, the
  target no longer marked found (state SEARCHING) and the counter at 0.
\<close>

theorem counter_at_maximum_resets:
  assumes "\<not> disable_tracker_reset p"
    and "incremented (frame_step p s fr) = Some n"
    and "n \<ge> max_frames_without_faces p"
  shows "face_tracker (state_out (frame_step p s fr)) = None \<and>
         \<not> target_person_found (state_out (frame_step p s fr)) \<and>
         frames_without_faces (state_out (frame_step p s fr)) = 0 \<and>
         status_of (state_out (frame_step p s fr)) = SEARCHING"
proof -
  obtain s1 tbo where tp: "tracking_phase s fr = (s1, tbo)"
    by (cases "tracking_phase s fr") auto
  show ?thesis
  proof (cases tbo)
    case None
    then show ?thesis using tp assms(2) by (simp add: frame_step_def)
  next
    case (Some tb)
    then have r: "frame_step p s fr = disambiguate p s1 fr tb"
      using tp by (simp add: frame_step_def)
    show ?thesis
      using disambiguate_at_maximum [OF assms(1), of s1 fr tb n] assms(2,3)
      by (simp add: r status_of_def)
  qed
qed

theorem counter_at_maximum_resets_witness:
  "\<not> disable_tracker_reset example_params \<and>
   incremented (frame_step example_params (tracking_state 29) frame_no_face) = Some 30 \<and>
   30 \<ge> max_frames_without_faces example_params \<and>
   status_of (tracking_state 29) = TRACKING \<and>
   face_tracker (state_out (frame_step example_params (tracking_state 29) frame_no_face)) = None \<and>
   \<not> target_person_found (state_out (frame_step example_params (tracking_state 29) frame_no_face)) \<and>
   frames_without_faces (state_out (frame_step example_params (tracking_state 29) frame_no_face)) = 0 \<and>
   status_of (state_out (frame_step example_params (tracking_state 29) frame_no_face)) = SEARCHING"
proof -
  have h1: "\<not> disable_tracker_reset example_params"
    by (simp add: example_params_def)
  have h2: "incremented (frame_step example_params (tracking_state 29) frame_no_face) = Some 30"
    by (simp add: frame_eval frame_no_face_def tracking_state_def example_params_def
        highest_containment.simps)
  have h3: "30 \<ge> max_frames_without_faces example_params"
    by (simp add: example_params_def)
  have h4: "status_of (tracking_state 29) = TRACKING"
    by (simp add: status_of_def tracking_state_def)
  show ?thesis
    using counter_at_maximum_resets [OF h1 h2 h3] h1 h2 h3 h4 by simp
qed

section \<open>The entry point\<close>

lemma target_images_example:
  "target_images [''Face.JPG'', ''notes.txt''] = [''Face.JPG'']"
  "target_images [''notes.txt''] = []"
  by code_simp+

text \<open>
  Whenever the inputs are valid and the reader cannot be opened, the entry point
  returns its success dictionary.
\<close>

lemma unreadable_video_returns_success:
  assumes "path_exists w video_path" and "path_exists w target_person_dir"
    and "listdir w target_person_dir = Some files"
    and "target_embeddings w target_person_dir (target_images files) \<noteq> []"
    and "reader (video w video_path) = None"
  shows "\<exists>res. outcome (process_video_with_selective_blurring w p video_path
            target_person_dir output_path) = Inr res \<and> success res"
proof -
  have "target_images files \<noteq> []"
    using assms(4) by (auto simp: target_embeddings_def)
  then show ?thesis
    using assms by (simp add: process_video_with_selective_blurring_def video_detect_def)
qed

text \<open>
  C6. The claim: for a video whose container cannot be opened or read, the run aborts
  before any frame is processed, and in single-item mode the failure is surfaced to the
  caller rather than reported as success. The code, for the job \<open>job_world None\<close>
  (the video file and the target directory exist, the directory holds one usable image,
  the reader cannot be opened): no frame is processed and no output is written, and the
  entry point returns the dictionary with \<^verbatim>\<open>success\<close> true.
\<close>

theorem unreadable_video_reported_as_success:
  "reader (video (job_world None) ''job/video.mp4'') = None \<and>
   process_video_with_selective_blurring (job_world None) example_params
      ''job/video.mp4'' ''job/target'' ''job/out.mp4'' =
     \<lparr>models_created = True, video_detect_called = True,
      run_effects = \<lparr>frames_processed = 0, output_video = None\<rparr>,
      outcome = Inr \<lparr>success = True, input_video = ''job/video.mp4'',
        output_video_path = ''job/out.mp4'', target_embeddings_count = 1\<rparr>\<rparr>"
  by (simp add: process_video_with_selective_blurring_def job_world_def target_images_example
      target_embeddings_def path_join_def video_detect_def)

text \<open>
  C7. The entry point fails before any frame is processed when its inputs are invalid.
  If the video path or the target directory does not exist, it raises
  \<^verbatim>\<open>FileNotFoundError\<close> before the models are constructed and before
  \<^verbatim>\<open>video_detect\<close> (which holds the tracker state) is called. If both exist and the
  directory holds no file with an image extension, or its images yield no embedding at
  all, it raises \<^verbatim>\<open>ValueError\<close> without calling \<^verbatim>\<open>video_detect\<close>: no frame is
  processed and no output is written.
\<close>

theorem invalid_inputs_rejected:
  "(\<not> path_exists w video_path \<or> \<not> path_exists w target_person_dir \<longrightarrow>
      (\<exists>msg. outcome (process_video_with_selective_blurring w p video_path target_person_dir
         output_path) = Inl (FileNotFoundError msg)) \<and>
      \<not> models_created (process_video_with_selective_blurring w p video_path target_person_dir
         output_path) \<and>
      \<not> video_detect_called (process_video_with_selective_blurring w p video_path
         target_person_dir output_path) \<and>
      run_effects (process_video_with_selective_blurring w p video_path target_person_dir
         output_path) = \<lparr>frames_processed = 0, output_video = None\<rparr>) \<and>
   (path_exists w video_path \<and> path_exists w target_person_dir \<and>
    listdir w target_person_dir = Some files \<and>
    (target_images files = [] \<or>
     target_embeddings w target_person_dir (target_images files) = []) \<longrightarrow>
      (\<exists>msg. outcome (process_video_with_selective_blurring w p video_path target_person_dir
         output_path) = Inl (ValueError msg)) \<and>
      \<not> video_detect_called (process_video_with_selective_blurring w p video_path
         target_person_dir output_path) \<and>
      run_effects (process_video_with_selective_blurring w p video_path target_person_dir
         output_path) = \<lparr>frames_processed = 0, output_video = None\<rparr>)"
  by (auto simp: process_video_with_selective_blurring_def no_effects_def)

theorem invalid_inputs_rejected_witness:
  "\<not> path_exists (job_world None) ''job/missing.mp4'' \<and>
   (\<exists>msg. outcome (process_video_with_selective_blurring (job_world None) example_params
      ''job/missing.mp4'' ''job/target'' ''job/out.mp4'') = Inl (FileNotFoundError msg)) \<and>
   \<not> models_created (process_video_with_selective_blurring (job_world None) example_params
      ''job/missing.mp4'' ''job/target'' ''job/out.mp4'') \<and>
   path_exists empty_dir_world ''job/video.mp4'' \<and>
   path_exists empty_dir_world ''job/target'' \<and>
   listdir empty_dir_world ''job/target'' = Some [''notes.txt''] \<and>
   target_images [''notes.txt''] = [] \<and>
   (\<exists>msg. outcome (process_video_with_selective_blurring empty_dir_world example_params
      ''job/video.mp4'' ''job/target'' ''job/out.mp4'') = Inl (ValueError msg)) \<and>
   \<not> video_detect_called (process_video_with_selective_blurring empty_dir_world example_params
      ''job/video.mp4'' ''job/target'' ''job/out.mp4'')"
proof -
  have h1: "\<not> path_exists (job_world None) ''job/missing.mp4''"
    by (simp add: job_world_def)
  have h2: "path_exists empty_dir_world ''job/video.mp4''"
    "path_exists empty_dir_world ''job/target''"
    "listdir empty_dir_world ''job/target'' = Some [''notes.txt'']"
    by (simp_all add: empty_dir_world_def)
  have h3: "target_images [''notes.txt''] = []"
    by (rule target_images_example)
  show ?thesis
    using invalid_inputs_rejected [where w = "job_world None" and video_path = "''job/missing.mp4''"
        and target_person_dir = "''job/target''" and p = example_params
        and output_path = "''job/out.mp4''"]
      invalid_inputs_rejected [where w = empty_dir_world and video_path = "''job/video.mp4''"
        and target_person_dir = "''job/target''" and files = "[''notes.txt'']"
        and p = example_params and output_path = "''job/out.mp4''"]
      h1 h2 h3
    by simp
qed

section \<open>Frame count and order\<close>

lemma states_before_length [simp]: "length (states_before p s frs) = length frs"
  by (induction frs arbitrary: s) simp_all

lemma frame_loop_no_quit:
  assumes "\<not> enable_preview p \<or> (\<forall>fr \<in> set frs. \<not> quit_key fr)" and "opath p \<noteq> None"
  shows "snd (frame_loop p s frs written n) =
           (written @ map2 (\<lambda>s fr. out_frame (frame_step p s fr)) (states_before p s frs) frs,
            n + length frs)"
  using assms
proof (induction frs arbitrary: s written n)
  case Nil
  then show ?case by simp
next
  case (Cons fr frs)
  have nq: "\<not> (enable_preview p \<and> quit_key fr)"
    using Cons.prems(1) by auto
  have rest: "\<not> enable_preview p \<or> (\<forall>fr \<in> set frs. \<not> quit_key fr)"
    using Cons.prems(1) by auto
  show ?case
    using nq Cons.prems(2) Cons.IH [OF rest Cons.prems(2)]
    by (auto simp: Let_def)
qed

text \<open>
  C8. For a video whose reader yields \<open>N\<close> frames, with an output path, a writer that
  opens, and no early exit from the preview: the loop runs \<open>N\<close> times and the output
  video holds exactly \<open>N\<close> frames, the \<open>k\<close>-th of them being the frame the loop made
  of the \<open>k\<close>-th input frame (in the state the loop had reached before it).
\<close>

theorem every_frame_written_in_order:
  assumes "reader env = Some frames"
    and "opath p = Some path"
    and "writer_ok env"
    and "\<not> enable_preview p \<or> (\<forall>fr \<in> set frames. \<not> quit_key fr)"
  shows "\<exists>ws. output_video (fst (video_detect p env)) = Some ws \<and>
           length ws = length frames \<and>
           (\<forall>k < length frames.
              ws ! k = out_frame (frame_step p (states_before p initial_state frames ! k)
                         (frames ! k))) \<and>
           frames_processed (fst (video_detect p env)) = length frames \<and>
           snd (video_detect p env) = Inr ()"
proof -
  let ?ws = "map2 (\<lambda>s fr. out_frame (frame_step p s fr))
               (states_before p initial_state frames) frames"
  have op: "opath p \<noteq> None" using assms(2) by simp
  have l: "snd (frame_loop p initial_state frames [] 0) = (?ws, length frames)"
    using frame_loop_no_quit [OF assms(4) op, of initial_state "[]" 0] by simp
  obtain s where fl: "frame_loop p initial_state frames [] 0 = (s, ?ws, length frames)"
    using l by (cases "frame_loop p initial_state frames [] 0") simp
  have vd: "video_detect p env =
      (\<lparr>frames_processed = length frames, output_video = Some ?ws\<rparr>, Inr ())"
    using assms(1) assms(3) op fl by (simp add: video_detect_def)
  show ?thesis
    by (simp add: vd)
qed

theorem every_frame_written_in_order_witness:
  "reader two_frame_video = Some [frame_one_face, frame_no_face] \<and>
   opath example_params = Some ''out.mp4'' \<and>
   writer_ok two_frame_video \<and>
   \<not> enable_preview example_params \<and>
   (\<exists>ws. output_video (fst (video_detect example_params two_frame_video)) = Some ws \<and>
      length ws = 2 \<and>
      frames_processed (fst (video_detect example_params two_frame_video)) = 2)"
proof -
  have h1: "reader two_frame_video = Some [frame_one_face, frame_no_face]"
    by (simp add: two_frame_video_def)
  have h2: "opath example_params = Some ''out.mp4''"
    by (simp add: example_params_def)
  have h3: "writer_ok two_frame_video"
    by (simp add: two_frame_video_def)
  have h4: "\<not> enable_preview example_params"
    by (simp add: example_params_def)
  have h5: "\<not> enable_preview example_params \<or>
      (\<forall>fr \<in> set [frame_one_face, frame_no_face]. \<not> quit_key fr)"
    using h4 by simp
  show ?thesis
    using every_frame_written_in_order [OF h1 h2 h3 h5] h1 h2 h3 h4 by auto
qed

section \<open>Idempotence of the solid and mosaic modes\<close>

lemma saturate_uint [simp]: "saturate_u8 (uint c) = c"
proof -
  have "0 \<le> uint c" by simp
  moreover have "uint c < 256" using uint_bounded [of c] by simp
  ultimately have "max 0 (min 255 (uint c)) = uint c" by simp
  then show ?thesis by (simp add: saturate_u8_def)
qed

lemma length_cv2_rectangle [simp]: "length (cv2_rectangle f pt1 pt2 c) = length f"
  by (cases pt1; cases pt2) (simp add: cv2_rectangle_def)

lemma length_row_cv2_rectangle [simp]:
  "y < length f \<Longrightarrow> length (cv2_rectangle f pt1 pt2 c ! y) = length (f ! y)"
  by (cases pt1; cases pt2) (simp add: cv2_rectangle_def nth_enumerate_eq)

lemma pixel_cv2_rectangle:
  assumes "y < length f" and "x < length (f ! y)"
  shows "cv2_rectangle f (xa, ya) (xb, yb) c ! y ! x =
     (if min xa xb \<le> int x \<and> int x \<le> max xa xb \<and> min ya yb \<le> int y \<and> int y \<le> max ya yb
      then to_pixel c else f ! y ! x)"
  using assms by (simp add: cv2_rectangle_def nth_enumerate_eq)

lemma frame_eqI:
  assumes "length f = length g"
    and "\<And>y. y < length f \<Longrightarrow> length (f ! y) = length (g ! y)"
    and "\<And>y x. y < length f \<Longrightarrow> x < length (f ! y) \<Longrightarrow> f ! y ! x = g ! y ! x"
  shows "f = (g :: frame)"
proof (rule nth_equalityI)
  show "length f = length g" by (rule assms(1))
next
  fix y assume y: "y < length f"
  show "f ! y = g ! y"
  proof (rule nth_equalityI)
    show "length (f ! y) = length (g ! y)" using y by (rule assms(2))
  next
    fix x assume "x < length (f ! y)"
    then show "f ! y ! x = g ! y ! x" using y assms(3) by simp
  qed
qed

lemma cv2_rectangle_idem:
  "cv2_rectangle (cv2_rectangle f pt1 pt2 c) pt1 pt2 c = cv2_rectangle f pt1 pt2 c"
proof (cases pt1; cases pt2)
  fix xa ya xb yb assume p: "pt1 = (xa, ya)" "pt2 = (xb, yb)"
  show ?thesis
    unfolding p
    by (rule frame_eqI) (simp_all add: pixel_cv2_rectangle)
qed


lemma has_shape_row: "has_shape H W f \<Longrightarrow> y < H \<Longrightarrow> length (f ! y) = W"
  by (simp add: has_shape_def list_all_length)

lemma has_shape_length: "has_shape H W f \<Longrightarrow> length f = H"
  by (simp add: has_shape_def)

lemma has_shape_cv2_rectangle:
  "has_shape H W f \<Longrightarrow> has_shape H W (cv2_rectangle f pt1 pt2 c)"
  by (simp add: has_shape_def list_all_length)

lemma has_shape_eqI:
  assumes "has_shape H W f" and "has_shape H W g"
    and "\<And>y x. y < H \<Longrightarrow> x < W \<Longrightarrow> f ! y ! x = g ! y ! x"
  shows "f = g"
proof (rule frame_eqI)
  show "length f = length g"
    using assms(1,2) by (simp add: has_shape_length)
next
  fix y assume "y < length f"
  then have "y < H" using assms(1) by (simp add: has_shape_length)
  then show "length (f ! y) = length (g ! y)"
    using assms(1,2) by (simp add: has_shape_row)
next
  fix y x assume "y < length f" and "x < length (f ! y)"
  then have "y < H" and "x < W"
    using assms(1) by (simp_all add: has_shape_length has_shape_row)
  then show "f ! y ! x = g ! y ! x" by (rule assms(3))
qed

lemma getpixel_in_bounds:
  assumes "has_shape H W f" and "0 \<le> y" and "y < int H" and "0 \<le> x" and "x < int W"
  shows "getpixel f y x = Inr (f ! nat y ! nat x)"
proof -
  have "nat y < H" using assms(2,3) by simp
  then have "length (f ! nat y) = W" using assms(1) by (rule has_shape_row [rotated])
  then show ?thesis
    using assms by (simp add: getpixel_def Let_def has_shape_length)
qed

lemma mosaic_cell_pixels:
  assumes "has_shape H W f" and "0 \<le> y" and "y < int H" and "0 \<le> x" and "x < int W"
    and "x \<le> x2" and "y \<le> y2" and "1 \<le> ms"
  shows "\<exists>g. mosaic_cell f x y x2 y2 ms = Inr g \<and> has_shape H W g \<and>
           (\<forall>py < H. \<forall>px < W. g ! py ! px =
              (if cell_rect x2 y2 ms (y, x) (int py, int px) then f ! nat y ! nat x
               else f ! py ! px))"
proof -
  obtain c0 c1 c2 where c: "f ! nat y ! nat x = (c0, c1, c2)"
    by (cases "f ! nat y ! nat x") auto
  let ?g = "cv2_rectangle f (x, y) (min x2 (x + ms - 1), min y2 (y + ms - 1))
              (uint c0, uint c1, uint c2)"
  have cell: "mosaic_cell f x y x2 y2 ms = Inr ?g"
    using getpixel_in_bounds [OF assms(1-5)] c by (simp add: mosaic_cell_def)
  have shape: "has_shape H W ?g"
    using assms(1) by (rule has_shape_cv2_rectangle)
  have corners: "min x (min x2 (x + ms - 1)) = x" "max x (min x2 (x + ms - 1)) = min x2 (x + ms - 1)"
    "min y (min y2 (y + ms - 1)) = y" "max y (min y2 (y + ms - 1)) = min y2 (y + ms - 1)"
    using assms(6,7,8) by auto
  have px: "?g ! py ! px =
      (if cell_rect x2 y2 ms (y, x) (int py, int px) then f ! nat y ! nat x else f ! py ! px)"
    if "py < H" and "px < W" for py px
  proof -
    have "py < length f" and "px < length (f ! py)"
      using that assms(1) by (simp_all add: has_shape_length has_shape_row)
    then show ?thesis
      by (simp add: pixel_cv2_rectangle corners cell_rect_def to_pixel_def c)
  qed
  show ?thesis
    using cell shape px by blast
qed

lemma cell_pass_pixels:
  assumes "has_shape H W f" and "1 \<le> ms"
    and "\<forall>c \<in> set cs. 0 \<le> fst c \<and> fst c < int H \<and> 0 \<le> snd c \<and> snd c < int W \<and>
           snd c \<le> x2 \<and> fst c \<le> y2"
    and "\<forall>c \<in> set cs. \<forall>c' \<in> set cs. \<forall>q. cell_rect x2 y2 ms c q \<and> cell_rect x2 y2 ms c' q
           \<longrightarrow> c = c'"
  shows "\<exists>g. cell_pass f cs x2 y2 ms = Inr g \<and> has_shape H W g \<and>
           (\<forall>py < H. \<forall>px < W. g ! py ! px =
              (case find (\<lambda>c. cell_rect x2 y2 ms c (int py, int px)) cs of
                 None \<Rightarrow> f ! py ! px
               | Some c \<Rightarrow> f ! nat (fst c) ! nat (snd c)))"
  using assms
proof (induction cs arbitrary: f)
  case Nil
  then show ?case by simp
next
  case (Cons c cs)
  obtain y x where c: "c = (y, x)" by (cases c) auto
  have b: "0 \<le> y" "y < int H" "0 \<le> x" "x < int W" "x \<le> x2" "y \<le> y2"
    using Cons.prems(3) c by auto
  obtain f1 where f1: "mosaic_cell f x y x2 y2 ms = Inr f1" "has_shape H W f1"
    and f1px: "\<And>py px. py < H \<Longrightarrow> px < W \<Longrightarrow> f1 ! py ! px =
        (if cell_rect x2 y2 ms (y, x) (int py, int px) then f ! nat y ! nat x else f ! py ! px)"
    using mosaic_cell_pixels [OF Cons.prems(1) b(1-4) b(5,6) Cons.prems(2)] by blast
  have own: "cell_rect x2 y2 ms (y, x) (y, x)"
    using b Cons.prems(2) by (simp add: cell_rect_def)
  have rest3: "\<forall>c \<in> set cs. 0 \<le> fst c \<and> fst c < int H \<and> 0 \<le> snd c \<and> snd c < int W \<and>
      snd c \<le> x2 \<and> fst c \<le> y2"
    using Cons.prems(3) by simp
  have rest4: "\<forall>c \<in> set cs. \<forall>c' \<in> set cs. \<forall>q.
      cell_rect x2 y2 ms c q \<and> cell_rect x2 y2 ms c' q \<longrightarrow> c = c'"
    using Cons.prems(4) by simp
  obtain g where g: "cell_pass f1 cs x2 y2 ms = Inr g" "has_shape H W g"
    and gpx: "\<And>py px. py < H \<Longrightarrow> px < W \<Longrightarrow> g ! py ! px =
        (case find (\<lambda>c. cell_rect x2 y2 ms c (int py, int px)) cs of
           None \<Rightarrow> f1 ! py ! px
         | Some c \<Rightarrow> f1 ! nat (fst c) ! nat (snd c))"
    using Cons.IH [OF f1(2) Cons.prems(2) rest3 rest4] by blast
  have pass: "cell_pass f (c # cs) x2 y2 ms = Inr g"
    using f1(1) g(1) by (simp add: c)
  have origin: "f1 ! nat y ! nat x = f ! nat y ! nat x"
  proof -
    have "nat y < H" "nat x < W" using b by simp_all
    then show ?thesis using f1px [of "nat y" "nat x"] b own by simp
  qed
  have px: "g ! py ! px =
      (case find (\<lambda>c. cell_rect x2 y2 ms c (int py, int px)) (c # cs) of
         None \<Rightarrow> f ! py ! px
       | Some c \<Rightarrow> f ! nat (fst c) ! nat (snd c))"
    if lt: "py < H" "px < W" for py px
  proof (cases "find (\<lambda>c. cell_rect x2 y2 ms c (int py, int px)) cs")
    case None
    then show ?thesis
      using gpx [OF lt] f1px [OF lt] by (simp add: c)
  next
    case (Some c')
    then have c'in: "c' \<in> set cs" and c'q: "cell_rect x2 y2 ms c' (int py, int px)"
      by (auto simp: find_Some_iff in_set_conv_nth)
    obtain y' x' where c': "c' = (y', x')" by (cases c') auto
    have b': "0 \<le> y'" "y' < int H" "0 \<le> x'" "x' < int W" "x' \<le> x2" "y' \<le> y2"
      using rest3 c'in c' by auto
    have own': "cell_rect x2 y2 ms c' (y', x')"
      using b' Cons.prems(2) by (simp add: cell_rect_def c')
    have gval: "g ! py ! px = f1 ! nat y' ! nat x'"
      using gpx [OF lt] Some c' by simp
    show ?thesis
    proof (cases "cell_rect x2 y2 ms (y, x) (int py, int px)")
      case True
      then have "c = c'"
        using Cons.prems(4) c'in c'q c by (metis list.set_intros(1,2))
      then show ?thesis
        using True gval origin c c' by simp
    next
      case False
      have "\<not> cell_rect x2 y2 ms (y, x) (y', x')"
      proof
        assume "cell_rect x2 y2 ms (y, x) (y', x')"
        then have "c = c'"
          using Cons.prems(4) c'in own' c by (metis list.set_intros(1,2))
        then show False using False c'q by (simp add: c)
      qed
      moreover have "nat y' < H" "nat x' < W" using b' by simp_all
      ultimately have "f1 ! nat y' ! nat x' = f ! nat y' ! nat x'"
        using f1px [of "nat y'" "nat x'"] b' by simp
      then show ?thesis
        using False gval Some c c' by simp
    qed
  qed
  show ?case
    using pass g(2) px by blast
qed

lemma cell_pass_constant:
  assumes "has_shape H W f" and "1 \<le> ms"
    and "\<forall>c \<in> set cs. 0 \<le> fst c \<and> fst c < int H \<and> 0 \<le> snd c \<and> snd c < int W \<and>
           snd c \<le> x2 \<and> fst c \<le> y2"
    and "\<forall>c \<in> set cs. \<forall>c' \<in> set cs. \<forall>q. cell_rect x2 y2 ms c q \<and> cell_rect x2 y2 ms c' q
           \<longrightarrow> c = c'"
  shows "\<exists>g. cell_pass f cs x2 y2 ms = Inr g \<and> has_shape H W g \<and>
           (\<forall>c \<in> set cs. \<forall>py < H. \<forall>px < W. cell_rect x2 y2 ms c (int py, int px) \<longrightarrow>
              g ! py ! px = g ! nat (fst c) ! nat (snd c))"
proof -
  obtain g where g: "cell_pass f cs x2 y2 ms = Inr g" "has_shape H W g"
    and gpx: "\<And>py px. py < H \<Longrightarrow> px < W \<Longrightarrow> g ! py ! px =
        (case find (\<lambda>c. cell_rect x2 y2 ms c (int py, int px)) cs of
           None \<Rightarrow> f ! py ! px
         | Some c \<Rightarrow> f ! nat (fst c) ! nat (snd c))"
    using cell_pass_pixels [OF assms] by blast
  have in_cell: "g ! py ! px = f ! nat (fst c) ! nat (snd c)"
    if cin: "c \<in> set cs" and lt: "py < H" "px < W"
      and q: "cell_rect x2 y2 ms c (int py, int px)" for c py px
  proof (cases "find (\<lambda>c. cell_rect x2 y2 ms c (int py, int px)) cs")
    case None
    then have "\<not> (\<exists>d. d \<in> set cs \<and> cell_rect x2 y2 ms d (int py, int px))"
      unfolding find_None_iff .
    then show ?thesis using cin q by blast
  next
    case (Some d)
    then have "d \<in> set cs" and "cell_rect x2 y2 ms d (int py, int px)"
      by (auto simp: find_Some_iff in_set_conv_nth)
    then have "d = c"
      using assms(4) cin q by blast
    then show ?thesis using gpx [OF lt] Some by simp
  qed
  have const: "g ! py ! px = g ! nat (fst c) ! nat (snd c)"
    if cin: "c \<in> set cs" and lt: "py < H" "px < W"
      and q: "cell_rect x2 y2 ms c (int py, int px)" for c py px
  proof -
    have b: "0 \<le> fst c" "fst c < int H" "0 \<le> snd c" "snd c < int W" "snd c \<le> x2" "fst c \<le> y2"
      using assms(3) cin by auto
    have own: "cell_rect x2 y2 ms c (fst c, snd c)"
      using b assms(2) by (cases c) (simp add: cell_rect_def)
    have nn: "int (nat (fst c)) = fst c" "int (nat (snd c)) = snd c"
      using b by simp_all
    have lt': "nat (fst c) < H" "nat (snd c) < W" using b by simp_all
    have own': "cell_rect x2 y2 ms c (int (nat (fst c)), int (nat (snd c)))"
      using own by (simp only: nn)
    have "g ! nat (fst c) ! nat (snd c) = f ! nat (fst c) ! nat (snd c)"
      using cin lt' own' by (rule in_cell)
    moreover have "g ! py ! px = f ! nat (fst c) ! nat (snd c)"
      using cin lt q by (rule in_cell)
    ultimately show ?thesis by simp
  qed
  show ?thesis
    using g const by blast
qed

lemma cell_pass_fixed:
  assumes "has_shape H W h" and "1 \<le> ms"
    and "\<forall>c \<in> set cs. 0 \<le> fst c \<and> fst c < int H \<and> 0 \<le> snd c \<and> snd c < int W \<and>
           snd c \<le> x2 \<and> fst c \<le> y2"
    and "\<forall>c \<in> set cs. \<forall>c' \<in> set cs. \<forall>q. cell_rect x2 y2 ms c q \<and> cell_rect x2 y2 ms c' q
           \<longrightarrow> c = c'"
    and "\<forall>c \<in> set cs. \<forall>py < H. \<forall>px < W. cell_rect x2 y2 ms c (int py, int px) \<longrightarrow>
           h ! py ! px = h ! nat (fst c) ! nat (snd c)"
  shows "cell_pass h cs x2 y2 ms = Inr h"
proof -
  obtain k where k: "cell_pass h cs x2 y2 ms = Inr k" "has_shape H W k"
    and kpx: "\<And>py px. py < H \<Longrightarrow> px < W \<Longrightarrow> k ! py ! px =
        (case find (\<lambda>c. cell_rect x2 y2 ms c (int py, int px)) cs of
           None \<Rightarrow> h ! py ! px
         | Some c \<Rightarrow> h ! nat (fst c) ! nat (snd c))"
    using cell_pass_pixels [OF assms(1-4)] by blast
  have "k = h"
  proof (rule has_shape_eqI [OF k(2) assms(1)])
    fix py px assume lt: "py < H" "px < W"
    show "k ! py ! px = h ! py ! px"
    proof (cases "find (\<lambda>c. cell_rect x2 y2 ms c (int py, int px)) cs")
      case None
      then show ?thesis using kpx [OF lt] by simp
    next
      case (Some c)
      then have "c \<in> set cs" and "cell_rect x2 y2 ms c (int py, int px)"
        by (auto simp: find_Some_iff in_set_conv_nth)
      then have "h ! py ! px = h ! nat (fst c) ! nat (snd c)"
        using assms(5) lt by blast
      then show ?thesis using kpx [OF lt] Some by simp
    qed
  qed
  then show ?thesis using k(1) by simp
qed

lemma length_paint [simp]: "length (paint f pts c) = length f"
  by (simp add: paint_def)

lemma length_row_paint [simp]: "y < length f \<Longrightarrow> length (paint f pts c ! y) = length (f ! y)"
  by (simp add: paint_def nth_enumerate_eq)

lemma pixel_paint:
  assumes "y < length f" and "x < length (f ! y)"
  shows "paint f pts c ! y ! x = (if (int x, int y) \<in> set pts then to_pixel c else f ! y ! x)"
  using assms by (simp add: paint_def nth_enumerate_eq)

lemma has_shape_paint: "has_shape H W f \<Longrightarrow> has_shape H W (paint f pts c)"
  by (simp add: has_shape_def list_all_length)

lemma paint_idem: "paint (paint f pts c) pts c = paint f pts c"
  by (rule frame_eqI) (simp_all add: pixel_paint)

lemma paint_rectangle_paint:
  "paint (cv2_rectangle (paint (cv2_rectangle f pt1 pt2 c) pts d) pt1 pt2 c) pts d =
     paint (cv2_rectangle f pt1 pt2 c) pts d"
proof (cases pt1; cases pt2)
  fix xa ya xb yb assume p: "pt1 = (xa, ya)" "pt2 = (xb, yb)"
  show ?thesis
    unfolding p
    by (rule frame_eqI) (simp_all add: pixel_paint pixel_cv2_rectangle)
qed

lemma cell_pass_append:
  "cell_pass f (cs @ ds) x2 y2 ms =
     (case cell_pass f cs x2 y2 ms of Inl e \<Rightarrow> Inl e | Inr g \<Rightarrow> cell_pass g ds x2 y2 ms)"
proof (induction cs arbitrary: f)
  case Nil
  then show ?case by simp
next
  case (Cons c cs)
  obtain y x where c: "c = (y, x)" by (cases c) auto
  show ?case
    by (simp add: c Cons.IH split: sum.splits)
qed

lemma mosaic_xs_cell_pass:
  "mosaic_xs f xs y x2 y2 ms = cell_pass f (map (Pair y) xs) x2 y2 ms"
  by (induction xs arbitrary: f) (simp_all split: sum.splits)

lemma mosaic_ys_cell_pass:
  "mosaic_ys f ys xs x2 y2 ms = cell_pass f (List.product ys xs) x2 y2 ms"
  by (induction ys arbitrary: f)
     (simp_all add: cell_pass_append mosaic_xs_cell_pass split: sum.splits)

lemma py_range_member:
  assumes "0 < step" and "v \<in> set (py_range a b step)"
  shows "(\<exists>k::nat. v = a + int k * step) \<and> a \<le> v \<and> v < b"
proof -
  let ?m = "b - a + step - 1"
  obtain k :: nat where k: "v = a + int k * step" "k < nat (?m div step)"
    using assms by (auto simp: py_range_def)
  have "int k + 1 \<le> ?m div step" using k(2) by simp
  then have "(int k + 1) * step \<le> (?m div step) * step"
    using assms(1) by (simp add: mult_right_mono)
  also have "\<dots> \<le> ?m"
  proof -
    have "?m div step * step + ?m mod step = ?m" by simp
    moreover have "0 \<le> ?m mod step" using assms(1) by simp
    ultimately show ?thesis by linarith
  qed
  finally have "int k * step + step \<le> b - a + step - 1"
    by (simp add: algebra_simps)
  then have "v < b" using k(1) by simp
  moreover have "0 \<le> int k * step" using assms(1) by simp
  ultimately show ?thesis using k(1) by auto
qed

lemma py_range_apart:
  assumes "0 < step" and "v \<in> set (py_range a b step)" and "v' \<in> set (py_range a b step)"
    and "v \<le> q" and "q \<le> v + step - 1" and "v' \<le> q" and "q \<le> v' + step - 1"
  shows "v = v'"
proof -
  obtain k k' :: nat where k: "v = a + int k * step" "v' = a + int k' * step"
    using py_range_member [OF assms(1)] assms(2,3) by blast
  have "\<not> k < k'"
  proof
    assume "k < k'"
    then have "int k + 1 \<le> int k'" by simp
    then have "(int k + 1) * step \<le> int k' * step"
      using assms(1) by (simp add: mult_right_mono)
    then have "v + step \<le> v'" using k by (simp add: algebra_simps)
    then show False using assms(5,6) by simp
  qed
  moreover have "\<not> k' < k"
  proof
    assume "k' < k"
    then have "int k' + 1 \<le> int k" by simp
    then have "(int k' + 1) * step \<le> int k * step"
      using assms(1) by (simp add: mult_right_mono)
    then have "v' + step \<le> v" using k by (simp add: algebra_simps)
    then show False using assms(4,7) by simp
  qed
  ultimately show ?thesis using k by simp
qed

lemma py_range_backwards_empty:
  assumes "step < 0" and "a \<le> b"
  shows "py_range a b step = []"
proof -
  let ?n = "a - b - step - 1"
  let ?d = "- step"
  have d: "0 < ?d" using assms(1) by simp
  have n: "?n \<le> ?d - 1" using assms(2) by simp
  have "?n div ?d \<le> (?d - 1) div ?d"
    using n d by (rule zdiv_mono1)
  moreover have "(?d - 1) div ?d = 0"
  proof (rule div_pos_pos_trivial)
    show "0 \<le> ?d - 1" using d by simp
    show "?d - 1 < ?d" by simp
  qed
  ultimately have "?n div ?d \<le> 0" by simp
  then show ?thesis using assms(1) by (simp add: py_range_def)
qed

lemma mosaic_fixed_points:
  assumes "has_shape H W f"
    and "0 \<le> x1" "x1 \<le> x2" "x2 \<le> int W" "0 \<le> y1" "y1 \<le> y2" "y2 \<le> int H"
    and "ms \<noteq> 0"
    and "\<forall>pt \<in> set pts. snd pt < y1"
  shows "\<exists>g. mosaic f x1 y1 x2 y2 ms = Inr g \<and> has_shape H W g \<and>
           mosaic g x1 y1 x2 y2 ms = Inr g \<and>
           mosaic (paint g pts d) x1 y1 x2 y2 ms = Inr (paint g pts d)"
proof (cases "0 < ms")
  case False
  then have neg: "ms < 0" using assms(8) by simp
  have "py_range y1 y2 ms = []"
    using neg assms(6) by (rule py_range_backwards_empty)
  then have "mosaic k x1 y1 x2 y2 ms = Inr k" for k
    using assms(8) by (simp add: mosaic_def)
  then show ?thesis using assms(1) by simp
next
  case True
  let ?cs = "List.product (py_range y1 y2 ms) (py_range x1 x2 ms)"
  have one: "1 \<le> ms" using True by simp
  have low: "y1 \<le> fst c" if "c \<in> set ?cs" for c
  proof -
    have "fst c \<in> set (py_range y1 y2 ms)" using that by auto
    then show ?thesis using py_range_member [OF True] by blast
  qed
  have bounds: "\<forall>c \<in> set ?cs. 0 \<le> fst c \<and> fst c < int H \<and> 0 \<le> snd c \<and> snd c < int W \<and>
      snd c \<le> x2 \<and> fst c \<le> y2"
  proof
    fix c assume "c \<in> set ?cs"
    then have "fst c \<in> set (py_range y1 y2 ms)" and "snd c \<in> set (py_range x1 x2 ms)"
      by auto
    then have "y1 \<le> fst c \<and> fst c < y2" and "x1 \<le> snd c \<and> snd c < x2"
      using py_range_member [OF True] by blast+
    then show "0 \<le> fst c \<and> fst c < int H \<and> 0 \<le> snd c \<and> snd c < int W \<and>
        snd c \<le> x2 \<and> fst c \<le> y2"
      using assms(2-7) by simp
  qed
  have apart: "\<forall>c \<in> set ?cs. \<forall>c' \<in> set ?cs. \<forall>q.
      cell_rect x2 y2 ms c q \<and> cell_rect x2 y2 ms c' q \<longrightarrow> c = c'"
  proof (intro ballI allI impI)
    fix c c' q
    assume c: "c \<in> set ?cs" and c': "c' \<in> set ?cs"
      and q: "cell_rect x2 y2 ms c q \<and> cell_rect x2 y2 ms c' q"
    have m: "fst c \<in> set (py_range y1 y2 ms)" "snd c \<in> set (py_range x1 x2 ms)"
      "fst c' \<in> set (py_range y1 y2 ms)" "snd c' \<in> set (py_range x1 x2 ms)"
      using c c' by auto
    have r: "snd c \<le> snd q" "snd q \<le> snd c + ms - 1" "fst c \<le> fst q" "fst q \<le> fst c + ms - 1"
      "snd c' \<le> snd q" "snd q \<le> snd c' + ms - 1" "fst c' \<le> fst q" "fst q \<le> fst c' + ms - 1"
      using q by (cases c; cases c'; cases q; simp add: cell_rect_def)+
    have "fst c = fst c'"
      using py_range_apart [OF True m(1) m(3) r(3) r(4) r(7) r(8)] .
    moreover have "snd c = snd c'"
      using py_range_apart [OF True m(2) m(4) r(1) r(2) r(5) r(6)] .
    ultimately show "c = c'" by (simp add: prod_eq_iff)
  qed
  have m: "mosaic k x1 y1 x2 y2 ms = cell_pass k ?cs x2 y2 ms" for k
    using assms(8) by (simp add: mosaic_def mosaic_ys_cell_pass)
  obtain g where g: "cell_pass f ?cs x2 y2 ms = Inr g" "has_shape H W g"
    and const: "\<forall>c \<in> set ?cs. \<forall>py < H. \<forall>px < W. cell_rect x2 y2 ms c (int py, int px) \<longrightarrow>
        g ! py ! px = g ! nat (fst c) ! nat (snd c)"
    using cell_pass_constant [OF assms(1) one bounds apart] by blast
  have again: "cell_pass g ?cs x2 y2 ms = Inr g"
    using g(2) one bounds apart const by (rule cell_pass_fixed)
  let ?t = "paint g pts d"
  have tshape: "has_shape H W ?t"
    using g(2) by (rule has_shape_paint)
  have unpainted: "?t ! py ! px = g ! py ! px"
    if "py < H" "px < W" "y1 \<le> int py" for py px
  proof -
    have "(int px, int py) \<notin> set pts"
      using assms(9) that(3) by fastforce
    moreover have "py < length g" "px < length (g ! py)"
      using that(1,2) g(2) by (simp_all add: has_shape_length has_shape_row)
    ultimately show ?thesis by (simp add: pixel_paint)
  qed
  have tconst: "\<forall>c \<in> set ?cs. \<forall>py < H. \<forall>px < W. cell_rect x2 y2 ms c (int py, int px) \<longrightarrow>
      ?t ! py ! px = ?t ! nat (fst c) ! nat (snd c)"
  proof (intro ballI allI impI)
    fix c py px
    assume cin: "c \<in> set ?cs" and lt: "py < H" "px < W"
      and q: "cell_rect x2 y2 ms c (int py, int px)"
    have b: "0 \<le> fst c" "fst c < int H" "0 \<le> snd c" "snd c < int W"
      using bounds cin by auto
    have "fst c \<le> int py"
      using q by (cases c) (simp add: cell_rect_def)
    then have "?t ! py ! px = g ! py ! px"
      using unpainted [OF lt] low [OF cin] by simp
    moreover have "?t ! nat (fst c) ! nat (snd c) = g ! nat (fst c) ! nat (snd c)"
      using unpainted [of "nat (fst c)" "nat (snd c)"] b low [OF cin] by simp
    moreover have "g ! py ! px = g ! nat (fst c) ! nat (snd c)"
      using const cin lt q by blast
    ultimately show "?t ! py ! px = ?t ! nat (fst c) ! nat (snd c)" by simp
  qed
  have painted: "cell_pass ?t ?cs x2 y2 ms = Inr ?t"
    using tshape one bounds apart tconst by (rule cell_pass_fixed)
  show ?thesis
    using g again painted by (simp add: m)
qed

text \<open>
  C9. For every frame buffer (an \<open>H \<times> W\<close> array), every box within the frame
  (\<open>0 \<le> x1 \<le> x2 \<le> W\<close> and \<open>0 \<le> y1 \<le> y2 \<le> H\<close>, which includes the boxes
  \<^verbatim>\<open>anonymize_frame\<close> clips to \<open>W - 1\<close> and \<open>H - 1\<close>) and fixed parameters:
  \<^verbatim>\<open>draw_det\<close> in mode \<^verbatim>\<open>'solid'\<close> returns a frame on which a second application
  returns the same frame; and so does \<^verbatim>\<open>draw_det\<close> in mode \<^verbatim>\<open>'mosaic'\<close> for a mosaic
  size other than zero (for zero, \<^verbatim>\<open>range\<close> raises and no frame results), provided
  that the score text, when it is drawn, stays above the box (it is drawn from a
  baseline 20 rows above the box's top). Each application is a function of its
  arguments, so a single application is deterministic.
\<close>

theorem solid_and_mosaic_idempotent:
  assumes "has_shape H W frame"
    and "0 \<le> x1" and "x1 \<le> x2" and "x2 \<le> int W"
    and "0 \<le> y1" and "y1 \<le> y2" and "y2 \<le> int H"
  shows "(\<exists>once.
            draw_det ops frame score x1 y1 x2 y2 ''solid'' ellipse draw_scores ovcolor mosaicsize
              = Inr once \<and>
            draw_det ops once score x1 y1 x2 y2 ''solid'' ellipse draw_scores ovcolor mosaicsize
              = Inr once) \<and>
         (mosaicsize \<noteq> 0 \<and>
          (draw_scores \<longrightarrow> (\<forall>pt \<in> set (text_pixels ops score x1 (y1 - 20)). snd pt < y1)) \<longrightarrow>
          (\<exists>once.
            draw_det ops frame score x1 y1 x2 y2 ''mosaic'' ellipse draw_scores ovcolor mosaicsize
              = Inr once \<and>
            draw_det ops once score x1 y1 x2 y2 ''mosaic'' ellipse draw_scores ovcolor mosaicsize
              = Inr once))"
proof (intro conjI impI)
  show "\<exists>once.
      draw_det ops frame score x1 y1 x2 y2 ''solid'' ellipse draw_scores ovcolor mosaicsize
        = Inr once \<and>
      draw_det ops once score x1 y1 x2 y2 ''solid'' ellipse draw_scores ovcolor mosaicsize
        = Inr once"
    by (simp add: draw_det_def cv2_putText_def cv2_rectangle_idem paint_rectangle_paint)
next
  assume a: "mosaicsize \<noteq> 0 \<and>
    (draw_scores \<longrightarrow> (\<forall>pt \<in> set (text_pixels ops score x1 (y1 - 20)). snd pt < y1))"
  let ?pts = "if draw_scores then text_pixels ops score x1 (y1 - 20) else []"
  have above: "\<forall>pt \<in> set ?pts. snd pt < y1"
    using a by simp
  have ms: "mosaicsize \<noteq> 0" using a by simp
  obtain g where g: "mosaic frame x1 y1 x2 y2 mosaicsize = Inr g"
    "mosaic g x1 y1 x2 y2 mosaicsize = Inr g"
    "mosaic (paint g ?pts (0, 255, 0)) x1 y1 x2 y2 mosaicsize = Inr (paint g ?pts (0, 255, 0))"
    using mosaic_fixed_points [OF assms ms above, of "(0, 255, 0)"] by blast
  show "\<exists>once.
      draw_det ops frame score x1 y1 x2 y2 ''mosaic'' ellipse draw_scores ovcolor mosaicsize
        = Inr once \<and>
      draw_det ops once score x1 y1 x2 y2 ''mosaic'' ellipse draw_scores ovcolor mosaicsize
        = Inr once"
  proof (cases draw_scores)
    case True
    then show ?thesis
      using g by (simp add: draw_det_def cv2_putText_def paint_idem)
  next
    case False
    then show ?thesis
      using g by (simp add: draw_det_def)
  qed
qed

theorem solid_and_mosaic_idempotent_witness:
  "has_shape 4 5 small_frame \<and>
   (\<exists>once.
      draw_det toy_ops small_frame 0.9 1 1 4 3 ''solid'' True True (0, 0, 0) 2 = Inr once \<and>
      draw_det toy_ops once 0.9 1 1 4 3 ''solid'' True True (0, 0, 0) 2 = Inr once) \<and>
   set (text_pixels toy_ops 0.9 1 (1 - 20)) = {(1, 0), (2, 0)} \<and>
   (\<exists>once.
      draw_det toy_ops small_frame 0.9 1 1 4 3 ''mosaic'' True True (0, 0, 0) 2 = Inr once \<and>
      draw_det toy_ops once 0.9 1 1 4 3 ''mosaic'' True True (0, 0, 0) 2 = Inr once)"
proof -
  have h: "has_shape 4 5 small_frame"
    by code_simp
  have t: "set (text_pixels toy_ops 0.9 1 (1 - 20)) = {(1, 0), (2, 0)}"
    by (simp add: toy_ops_def)
  show ?thesis
    using solid_and_mosaic_idempotent [OF h, where ?x1.0 = 1 and ?x2.0 = 4 and ?y1.0 = 1
        and ?y2.0 = 3 and mosaicsize = 2 and ops = toy_ops and score = "0.9" and ellipse = True
        and draw_scores = True and ovcolor = "(0, 0, 0)"] h t
    by simp
qed

text \<open>
  The mosaic of the small frame, with cells of two by two pixels and the score text
  (two pixels in the row above the box).
\<close>

lemma small_frame_mosaic:
  "draw_det toy_ops small_frame 0.9 1 1 4 3 ''mosaic'' True True (0, 0, 0) 2 =
     Inr [[(0, 0, 0), (0, 255, 0), (0, 255, 0), (3, 0, 3), (4, 0, 4)],
          [(10, 1, 0), (11, 1, 1), (11, 1, 1), (13, 1, 3), (13, 1, 3)],
          [(20, 2, 0), (11, 1, 1), (11, 1, 1), (13, 1, 3), (13, 1, 3)],
          [(30, 3, 0), (31, 3, 1), (32, 3, 2), (33, 3, 3), (34, 3, 4)]]"
  by code_simp

end
